theory Spec2Isabelle
  imports Complex_Main "HOL-Library.Stream"
begin

section \<open>Conventions of the embedding\<close>

text \<open>
  The sources are TypeScript. A JavaScript \<^verbatim>\<open>number\<close> that holds a quantity
  (a weight, a coordinate, a distance, a temperature, a polynomial value) is a \<^typ>\<open>real\<close>:
  rounding of IEEE doubles is not modelled, so every equation below is one of exact
  arithmetic. A \<^verbatim>\<open>number\<close> that is an array index, a counter or a bit pattern is a
  \<^typ>\<open>nat\<close>. Arrays are lists.

  \<^verbatim>\<open>Math.random()\<close> is a read of an explicit stream: the call consumes the head
  and the program goes on with the tail. The stream may hold any reals; the value
  delivered is the fractional part of the head, so that every draw lies in \<open>[0,1)\<close>,
  the range of \<^verbatim>\<open>Math.random()\<close>, and every value of that range can be drawn.
\<close>

type_synonym rng = "real stream"

definition random :: "rng \<Rightarrow> real \<times> rng" where
  "random g = (frac (shd g), stl g)"

text \<open>\<^verbatim>\<open>Math.floor(u * k)\<close> for a draw \<open>u\<close> and a count \<open>k\<close>.\<close>

definition floorTimes :: "real \<Rightarrow> nat \<Rightarrow> nat" where
  "floorTimes u k = nat \<lfloor>u * real k\<rfloor>"

text \<open>Exceptions are values: the only one these sources can throw is a \<^verbatim>\<open>TypeError\<close>,
  from reading a property of \<^verbatim>\<open>undefined\<close>.\<close>

datatype error = TypeError

section \<open>Alias method (src/pages/AliasMethod.tsx)\<close>

subsection \<open>normalizeProbs\<close>

text \<open>
  The result is paired with a flag that is \<open>True\<close> when the function has raised the
  toast \<^verbatim>\<open>"Sum of probabilities cannot be zero"\<close>. The guard of the source is
  \<^verbatim>\<open>sum === 0\<close>.
\<close>

definition normalizeProbs :: "real list \<Rightarrow> bool \<times> real list" where
  "normalizeProbs probs =
     (let sum = foldl (\<lambda>acc val. acc + val) 0 probs in
      if sum = 0 then (True, map (\<lambda>_. 1 / real (length probs)) probs)
      else (False, map (\<lambda>p. p / sum) probs))"

subsection \<open>createAliasTables\<close>

text \<open>
  The two worklists are JavaScript arrays used as stacks: \<^verbatim>\<open>push\<close> appends at the
  end and \<^verbatim>\<open>pop\<close> removes the last element. The while loop is \<open>aliasLoop\<close>; it
  returns the three arrays it writes and the two worklists as they are when it ends.
  Every index the loop uses was pushed by the first for loop, so it is below \<open>n\<close> and
  no write falls outside its array.
\<close>

function aliasLoop ::
  "real list \<Rightarrow> real list \<Rightarrow> nat list \<Rightarrow> nat list \<Rightarrow> nat list
     \<Rightarrow> real list \<times> real list \<times> nat list \<times> nat list \<times> nat list" where
  "aliasLoop scaledProbs probTable aliasTable small large =
     (if small \<noteq> [] \<and> large \<noteq> [] then
        let s = last small; small1 = butlast small;
            l = last large; large1 = butlast large;
            probTable1 = probTable[s := scaledProbs ! s];
            aliasTable1 = aliasTable[s := l];
            scaledProbs1 = scaledProbs[l := scaledProbs ! l - (1 - scaledProbs ! s)]
        in if scaledProbs1 ! l < 1
           then aliasLoop scaledProbs1 probTable1 aliasTable1 (small1 @ [l]) large1
           else aliasLoop scaledProbs1 probTable1 aliasTable1 small1 (large1 @ [l])
      else (scaledProbs, probTable, aliasTable, small, large))"
  by pat_completeness auto
termination
  by (relation "measure (\<lambda>(sc, pt, al, small, large). length small + length large)")
     (auto simp: less_Suc_eq_le intro: Suc_leI)

declare aliasLoop.simps [simp del]

definition setOnes :: "nat list \<Rightarrow> real list \<Rightarrow> real list" where
  "setOnes idxs probTable = fold (\<lambda>i pt. pt[i := 1]) idxs probTable"

definition createAliasTables :: "real list \<Rightarrow> real list \<times> nat list" where
  "createAliasTables probs =
     (let n = length probs;
          scaledProbs = map (\<lambda>p. p * real n) probs;
          probTable = replicate n (0::real);
          aliasTable = replicate n (0::nat);
          small = filter (\<lambda>i. scaledProbs ! i < 1) [0..<n];
          large = filter (\<lambda>i. \<not> scaledProbs ! i < 1) [0..<n];
          (scaledProbs1, probTable1, aliasTable1, small1, large1) =
             aliasLoop scaledProbs probTable aliasTable small large
      in (setOnes small1 (setOnes large1 probTable1), aliasTable1))"

subsection \<open>sample\<close>

text \<open>
  One round of the loop of \<^verbatim>\<open>sample\<close>: two draws, the bucket and the coin. A read
  past the end of a table gives JavaScript's \<^verbatim>\<open>undefined\<close>, here \<open>None\<close>; a
  comparison with \<^verbatim>\<open>undefined\<close> is false.
\<close>

definition sampleOutcome :: "real list \<Rightarrow> nat list \<Rightarrow> nat \<Rightarrow> real \<Rightarrow> nat option" where
  "sampleOutcome probTable aliasTable bucket coinFlip =
     (if bucket < length probTable \<and> coinFlip < probTable ! bucket then Some bucket
      else if bucket < length aliasTable then Some (aliasTable ! bucket) else None)"

fun sample :: "real list \<Rightarrow> nat list \<Rightarrow> nat \<Rightarrow> rng \<Rightarrow> nat option list \<times> rng" where
  "sample probTable aliasTable 0 g = ([], g)"
| "sample probTable aliasTable (Suc count) g =
     (let n = length probTable;
          (u, g1) = random g;
          bucket = floorTimes u n;
          (coinFlip, g2) = random g1;
          outcome = sampleOutcome probTable aliasTable bucket coinFlip;
          (samples, g3) = sample probTable aliasTable count g2
      in (outcome # samples, g3))"

subsection \<open>Notions used to state and prove the properties of the tables\<close>

text \<open>The arguments the while loop of \<open>createAliasTables\<close> starts from, and the two
  worklists it ends with.\<close>

definition aliasStart ::
  "real list \<Rightarrow> real list \<times> real list \<times> nat list \<times> nat list \<times> nat list" where
  "aliasStart probs =
     (let n = length probs; scaledProbs = map (\<lambda>p. p * real n) probs
      in (scaledProbs, replicate n 0, replicate n 0,
          filter (\<lambda>i. scaledProbs ! i < 1) [0..<n],
          filter (\<lambda>i. \<not> scaledProbs ! i < 1) [0..<n]))"

definition leftover :: "real list \<Rightarrow> nat list \<times> nat list" where
  "leftover probs =
     (case aliasStart probs of (sc, pt, al, small, large) \<Rightarrow>
        (case aliasLoop sc pt al small large of
           (sc1, pt1, al1, small1, large1) \<Rightarrow> (small1, large1)))"

text \<open>
  The probability mass the finished tables give to outcome \<open>i\<close>, times \<open>n\<close>:
  bucket \<open>i\<close> returns \<open>i\<close> when the coin is below \<open>probTable[i]\<close>, and every bucket
  \<open>j\<close> with \<open>aliasTable[j] = i\<close> and \<open>probTable[j] < 1\<close> returns \<open>i\<close> when
  the coin is at least \<open>probTable[j]\<close>.
\<close>

definition aliasMass :: "real list \<Rightarrow> nat list \<Rightarrow> nat \<Rightarrow> real" where
  "aliasMass probTable aliasTable i =
     probTable ! i +
     sum_list (map (\<lambda>j. 1 - probTable ! j)
                 (filter (\<lambda>j. aliasTable ! j = i \<and> probTable ! j < 1)
                    [0..<length probTable]))"

text \<open>
  One call of \<open>sample\<close> makes two draws. \<open>drawsReturning\<close> is the set of the pairs of
  draws in the unit square on which the call returns outcome \<open>i\<close>. For bucket \<open>j\<close>,
  \<open>coinInterval\<close> gives the two ends of the interval of coins on which that bucket
  returns \<open>i\<close>; \<open>sampleProbability\<close> is the total area of the \<open>n\<close> rectangles that
  have the strip of draws mapped to bucket \<open>j\<close>, of width \<open>1/n\<close>, for one side and that
  interval for the other, and so the probability of outcome \<open>i\<close> when both draws are
  uniform on \<open>[0,1)\<close>.
\<close>

definition coinInterval :: "real list \<Rightarrow> nat list \<Rightarrow> nat \<Rightarrow> nat \<Rightarrow> real \<times> real" where
  "coinInterval probTable aliasTable bucket i =
     (if bucket = i \<and> aliasTable ! bucket = i then (0, 1)
      else if bucket = i then (0, probTable ! bucket)
      else if aliasTable ! bucket = i then (probTable ! bucket, 1)
      else (0, 0))"

definition drawsReturning :: "real list \<Rightarrow> nat list \<Rightarrow> rng \<Rightarrow> nat \<Rightarrow> (real \<times> real) set" where
  "drawsReturning probTable aliasTable g i =
     {(u, c). 0 \<le> u \<and> u < 1 \<and> 0 \<le> c \<and> c < 1 \<and>
              fst (sample probTable aliasTable 1 (u ## c ## g)) = [Some i]}"

definition sampleProbability :: "real list \<Rightarrow> nat list \<Rightarrow> nat \<Rightarrow> real" where
  "sampleProbability probTable aliasTable i =
     (\<Sum>j < length probTable.
        (real (j + 1) / real (length probTable) - real j / real (length probTable)) *
        (snd (coinInterval probTable aliasTable j i) - fst (coinInterval probTable aliasTable j i)))"

text \<open>
  Invariants of the while loop. \<open>aliasInv\<close>: the worklists hold distinct indices below
  \<open>n\<close>, those of \<open>small\<close> with a scaled value in \<open>[0,1)\<close> and those of \<open>large\<close>
  with one of at least 1; an index in neither worklist has its final \<open>probTable\<close> entry,
  in \<open>[0,1)\<close>. \<open>massInv\<close>: the mass of every index, what it still holds plus what the
  finished indices aliased to it have taken, is its original scaled value, and the
  scaled values of the pending indices sum to their number.
\<close>

definition aliasInv ::
  "nat \<Rightarrow> real list \<Rightarrow> real list \<Rightarrow> nat list \<Rightarrow> nat list \<Rightarrow> nat list \<Rightarrow> bool" where
  "aliasInv n sc pt al small large =
     (length sc = n \<and> length pt = n \<and> length al = n \<and>
      distinct (small @ large) \<and>
      (\<forall>i \<in> set small \<union> set large. i < n) \<and>
      (\<forall>i \<in> set small. 0 \<le> sc ! i \<and> sc ! i < 1) \<and>
      (\<forall>i \<in> set large. 1 \<le> sc ! i) \<and>
      (\<forall>i < n. i \<notin> set small \<union> set large \<longrightarrow> 0 \<le> pt ! i \<and> pt ! i < 1) \<and>
      (\<forall>i < n. al ! i < n))"

definition donors :: "nat \<Rightarrow> nat list \<Rightarrow> nat set \<Rightarrow> nat \<Rightarrow> nat set" where
  "donors n al W i = {j. j < n \<and> j \<notin> W \<and> al ! j = i}"

definition massInv ::
  "real list \<Rightarrow> nat \<Rightarrow> real list \<Rightarrow> real list \<Rightarrow> nat list \<Rightarrow> nat set \<Rightarrow> bool" where
  "massInv orig n sc pt al W =
     ((\<forall>i < n. (if i \<in> W then sc ! i else pt ! i) + (\<Sum>j \<in> donors n al W i. 1 - pt ! j)
                = orig ! i) \<and>
      (\<Sum>i \<in> W. sc ! i) = real (card W))"

definition fullInv ::
  "real list \<Rightarrow> nat \<Rightarrow> real list \<Rightarrow> real list \<Rightarrow> nat list \<Rightarrow> nat list \<Rightarrow> nat list \<Rightarrow> bool" where
  "fullInv orig n sc pt al small large =
     (aliasInv n sc pt al small large \<and> massInv orig n sc pt al (set small \<union> set large))"

section \<open>Travelling salesman engine (src/utils/simulatedAnnealing.ts, types in part_002)\<close>

record City =
  id_c :: nat
  x :: real
  y :: real

record SimulationState =
  cities :: "City list"
  currentPath :: "nat list"
  bestPath :: "nat list"
  distances :: "real list"
  currentDistance :: real
  bestDistance :: real
  temperature :: real
  iteration :: nat
  totalIterations :: nat
  isRunning :: bool
  animationSpeed :: real

text \<open>The field \<^verbatim>\<open>totalIterations\<close> of \<^verbatim>\<open>SimulationParams\<close> is \<open>totalIterations_p\<close>
  here, the name being taken by the field of the state.\<close>

record SimulationParams =
  initialTemperature :: real
  coolingRate :: real
  totalIterations_p :: nat

definition distance :: "City \<Rightarrow> City \<Rightarrow> real" where
  "distance city1 city2 =
     (let dx = x city1 - x city2; dy = y city1 - y city2 in sqrt (dx * dx + dy * dy))"

text \<open>
  \<^verbatim>\<open>distance(cities[a], cities[b])\<close>: an index past the end of \<open>cities\<close> reads
  \<^verbatim>\<open>undefined\<close>, and \<open>distance\<close> then throws on the access to its \<^verbatim>\<open>x\<close>.
\<close>

definition distanceAt :: "City list \<Rightarrow> nat \<Rightarrow> nat \<Rightarrow> error + real" where
  "distanceAt cs a b =
     (if a < length cs \<and> b < length cs then Inr (distance (cs ! a) (cs ! b))
      else Inl TypeError)"

text \<open>The for loop of \<open>calculatePathDistance\<close>, from index \<open>i\<close> on; it only runs on a
  path that is not empty, so \<open>i + 1\<close> is within the path wherever it is read.\<close>

function pathLoop :: "City list \<Rightarrow> nat list \<Rightarrow> nat \<Rightarrow> real \<Rightarrow> error + real" where
  "pathLoop cs path i totalDist =
     (if i < length path - 1 then
        (case distanceAt cs (path ! i) (path ! (i + 1)) of
           Inl e \<Rightarrow> Inl e
         | Inr d \<Rightarrow> pathLoop cs path (i + 1) (totalDist + d))
      else Inr totalDist)"
  by pat_completeness auto
termination
  by (relation "measure (\<lambda>(cs, path, i, totalDist). length path - i)") auto

declare pathLoop.simps [simp del]

definition calculatePathDistance :: "City list \<Rightarrow> nat list \<Rightarrow> error + real" where
  "calculatePathDistance cs path =
     (if length cs < 2 \<or> length path = 0 then Inr 0
      else case distanceAt cs 0 (path ! 0) of
             Inl e \<Rightarrow> Inl e
           | Inr d0 \<Rightarrow>
               (case pathLoop cs path 0 d0 of
                  Inl e \<Rightarrow> Inl e
                | Inr totalDist \<Rightarrow>
                    (case distanceAt cs (path ! (length path - 1)) 0 of
                       Inl e \<Rightarrow> Inl e
                     | Inr d \<Rightarrow> Inr (totalDist + d))))"

definition getInitialState :: SimulationState where
  "getInitialState =
     \<lparr>cities = [], currentPath = [], bestPath = [], distances = [],
      currentDistance = 0, bestDistance = 0, temperature = 0, iteration = 0,
      totalIterations = 0, isRunning = False, animationSpeed = 1\<rparr>"

text \<open>
  \<open>shuffleArray\<close>, for \<open>i\<close> from \<open>length - 1\<close> down to 1. The index \<open>j\<close> is at most
  \<open>i\<close>, a draw being below 1, so both positions of the swap exist.
\<close>

fun shuffleLoop :: "nat \<Rightarrow> nat list \<Rightarrow> rng \<Rightarrow> nat list \<times> rng" where
  "shuffleLoop 0 array g = (array, g)"
| "shuffleLoop (Suc k) array g =
     (let i = Suc k;
          (u, g1) = random g;
          j = floorTimes u (i + 1)
      in shuffleLoop k (array[i := array ! j, j := array ! i]) g1)"

definition shuffleArray :: "nat list \<Rightarrow> rng \<Rightarrow> nat list \<times> rng" where
  "shuffleArray array g = shuffleLoop (length array - 1) array g"

definition initializeSimulation ::
  "City list \<Rightarrow> SimulationParams \<Rightarrow> rng \<Rightarrow> error + (SimulationState \<times> rng)" where
  "initializeSimulation cs params g =
     (if length cs < 3 then Inr (getInitialState, g)
      else
        let (pathIndices, g1) = shuffleArray (map (\<lambda>i. i + 1) [0..<length cs - 1]) g
        in case calculatePathDistance cs pathIndices of
             Inl e \<Rightarrow> Inl e
           | Inr initialDistance \<Rightarrow>
               Inr (\<lparr>cities = cs, currentPath = pathIndices, bestPath = pathIndices,
                     distances = [initialDistance], currentDistance = initialDistance,
                     bestDistance = initialDistance,
                     temperature = initialTemperature params, iteration = 0,
                     totalIterations = totalIterations_p params, isRunning = True,
                     animationSpeed = 1\<rparr>, g1))"

text \<open>
  The last block of \<open>simulationStep\<close> (the source's lines 114 to 124), reached when the
  two positions are equal and when the new path is not accepted.
\<close>

definition keepCurrent ::
  "SimulationState \<Rightarrow> SimulationParams \<Rightarrow> rng \<Rightarrow> error + (SimulationState \<times> rng)" where
  "keepCurrent state params g =
     (case calculatePathDistance (cities state) (currentPath state) of
        Inl e \<Rightarrow> Inl e
      | Inr currentDist \<Rightarrow>
          Inr (state\<lparr>distances := distances state @ [currentDist],
                     temperature := temperature state * coolingRate params,
                     iteration := iteration state + 1\<rparr>, g))"

text \<open>
  \<open>simulationStep\<close>. Three points of the translation:
  \<^item> the swap writes \<open>newPath[i]\<close> and \<open>newPath[j]\<close> with \<open>i, j < cities.length - 1\<close>.
    When one of them is past the end of the path, the write leaves an
    \<^verbatim>\<open>undefined\<close> entry in \<open>newPath\<close>, and \<open>calculatePathDistance\<close>, which reads every
    entry, throws: the step ends in a \<^verbatim>\<open>TypeError\<close>;
  \<^item> \<^verbatim>\<open>||\<close> evaluates its right operand, and so draws, only when the left one is false;
  \<^item> the right operand is reached with \<open>currentDistance - newDistance \<le> 0\<close>; when the
    temperature is 0 the quotient is \<^verbatim>\<open>-Infinity\<close> or \<^verbatim>\<open>NaN\<close> and the comparison
    is false.
\<close>

definition simulationStep ::
  "SimulationState \<Rightarrow> SimulationParams \<Rightarrow> rng \<Rightarrow> error + (SimulationState \<times> rng)" where
  "simulationStep state params g =
     (if length (cities state) < 3 \<or> iteration state \<ge> totalIterations state
      then Inr (state\<lparr>isRunning := False\<rparr>, g)
      else
        let numCities = length (cities state) - 1;
            newPath = currentPath state;
            (u1, g1) = random g;
            i = floorTimes u1 numCities;
            (u2, g2) = random g1;
            j = floorTimes u2 numCities
        in if i \<noteq> j then
             (if \<not> (i < length newPath \<and> j < length newPath) then Inl TypeError
              else
                let newPath = newPath[i := newPath ! j, j := newPath ! i]
                in case calculatePathDistance (cities state) (currentPath state) of
                     Inl e \<Rightarrow> Inl e
                   | Inr currentDist \<Rightarrow>
                      (case calculatePathDistance (cities state) newPath of
                         Inl e \<Rightarrow> Inl e
                       | Inr newDistance \<Rightarrow>
                          let (acceptNewSolution, g3) =
                                (if newDistance < currentDist then (True, g2)
                                 else case random g2 of (u3, g3) \<Rightarrow>
                                   (temperature state \<noteq> 0 \<and>
                                    u3 < exp ((currentDist - newDistance) / temperature state), g3))
                          in if acceptNewSolution then
                               let (newBestPath, newBestDistance) =
                                     (if length (bestPath state) = 0 \<or> newDistance < bestDistance state
                                      then (newPath, newDistance)
                                      else (bestPath state, bestDistance state))
                               in Inr (state\<lparr>currentPath := newPath,
                                              bestPath := newBestPath,
                                              distances := distances state @ [newDistance],
                                              currentDistance := newDistance,
                                              bestDistance := newBestDistance,
                                              temperature := temperature state * coolingRate params,
                                              iteration := iteration state + 1\<rparr>, g3)
                             else keepCurrent state params g3))
           else keepCurrent state params g2)"

text \<open>\<open>t\<close> calls of \<open>simulationStep\<close> in a row, as the animation loop of the page makes them.\<close>

fun stepTimes ::
  "nat \<Rightarrow> SimulationState \<Rightarrow> SimulationParams \<Rightarrow> rng \<Rightarrow> error + (SimulationState \<times> rng)" where
  "stepTimes 0 state params g = Inr (state, g)"
| "stepTimes (Suc t) state params g =
     (case simulationStep state params g of
        Inl e \<Rightarrow> Inl e
      | Inr (state1, g1) \<Rightarrow> stepTimes t state1 params g1)"

text \<open>
  The states a run can be in: the one \<open>initializeSimulation\<close> returns for at least
  three cities, every state \<open>simulationStep\<close> returns from such a state, and such a
  state with the two fields the page itself writes between steps (it pauses and resumes
  through \<open>isRunning\<close> and sets \<open>animationSpeed\<close>).
\<close>

inductive reachable :: "City list \<Rightarrow> SimulationParams \<Rightarrow> SimulationState \<Rightarrow> bool" where
  init: "3 \<le> length cs \<Longrightarrow> initializeSimulation cs params g = Inr (state, g1)
           \<Longrightarrow> reachable cs params state"
| step: "reachable cs params state \<Longrightarrow> simulationStep state params g = Inr (state1, g1)
           \<Longrightarrow> reachable cs params state1"
| page: "reachable cs params state
           \<Longrightarrow> reachable cs params (state\<lparr>isRunning := running, animationSpeed := speed\<rparr>)"

text \<open>
  The edges of the closed tour the claim on \<open>calculatePathDistance\<close> names: from the start
  to \<open>path[0]\<close>, along the path, and from its last city back to the start.
\<close>

definition tourEdges :: "City list \<Rightarrow> nat list \<Rightarrow> real list" where
  "tourEdges cs path =
     [distance (cs ! 0) (cs ! (path ! 0))] @
     map (\<lambda>i. distance (cs ! (path ! i)) (cs ! (path ! (i + 1)))) [0..<length path - 1] @
     [distance (cs ! (path ! (length path - 1))) (cs ! 0)]"

text \<open>The length of the walk through a list of cities, edge by edge.\<close>

fun walkLength :: "City list \<Rightarrow> real" where
  "walkLength (a # b # rest) = distance a b + walkLength (b # rest)"
| "walkLength _ = 0"

text \<open>A state whose two paths have one entry for every city but the start, each the
  index of a city.\<close>

definition wellFormed :: "SimulationState \<Rightarrow> bool" where
  "wellFormed state =
     (length (currentPath state) = length (cities state) - 1 \<and>
      (\<forall>k \<in> set (currentPath state). k < length (cities state)) \<and>
      length (bestPath state) = length (cities state) - 1)"

section \<open>Bitstring engine (part_001)\<close>

datatype neighborType = SingleBitFlip | TwoBitFlip | RandomWalk

datatype coolingSchedule = Geometric | Linear | Logarithmic

text \<open>The fields \<^verbatim>\<open>initialTemperature\<close> and \<^verbatim>\<open>coolingRate\<close> carry the suffix \<open>_t\<close>,
  their names being taken by the parameters of the other engine.\<close>

record ToySimulationParams =
  r :: int
  maxIterations :: nat
  initialTemperature_t :: real
  coolingRate_t :: real
  neighborType :: neighborType
  coolingSchedule :: coolingSchedule
  coefficients :: "real list"

text \<open>
  \<^verbatim>\<open>bestValue\<close> starts as \<^verbatim>\<open>-Infinity\<close> in \<open>getInitialToyState\<close>, so the values of
  that field are the reals and \<^verbatim>\<open>-Infinity\<close>, with JavaScript's order on them.
\<close>

datatype jsnum = NegInfinity | Num real

fun jsLess :: "jsnum \<Rightarrow> jsnum \<Rightarrow> bool" where
  "jsLess (Num a) (Num b) = (a < b)"
| "jsLess NegInfinity (Num b) = True"
| "jsLess a NegInfinity = False"

definition jsLessEq :: "jsnum \<Rightarrow> jsnum \<Rightarrow> bool" where
  "jsLessEq a b = (a = b \<or> jsLess a b)"

text \<open>The fields of \<^verbatim>\<open>IterationData\<close> carry the suffix \<open>_d\<close>.\<close>

record IterationData =
  iteration_d :: nat
  state_d :: nat
  value_d :: real
  bestValue_d :: jsnum
  temperature_d :: real
  acceptanceProbability_d :: real
  binaryRepresentation_d :: "nat list"

record SimulatedAnnealingToyState =
  history :: "IterationData list"
  bestState :: nat
  bestValue :: jsnum
  acceptedWorse :: nat
  currentIteration :: nat
  searchSpace :: "(nat \<times> real) list"
  currentState :: nat
  currentValue :: real
  isComplete :: bool

text \<open>\<^verbatim>\<open>reduce\<close> hands the callback the element and its index, from the left.\<close>

definition evaluatePolynomial :: "nat \<Rightarrow> real list \<Rightarrow> real" where
  "evaluatePolynomial n coeffs =
     foldl (\<lambda>sum (coef, i). sum + coef * real n ^ i) 0 (zip coeffs [0..<length coeffs])"

text \<open>\<^verbatim>\<open>n.toString(2)\<close> for a natural number: its binary digits, the most significant
  first, and \<^verbatim>\<open>"0"\<close> for 0.\<close>

fun toBinary :: "nat \<Rightarrow> nat list" where
  "toBinary n = (if n < 2 then [n] else toBinary (n div 2) @ [n mod 2])"

declare toBinary.simps [simp del]

text \<open>
  \<open>intToBinaryArray\<close>: the source computes \<^verbatim>\<open>clamped\<close> and does not use it; the digits
  are those of \<open>n\<close> itself, padded with zeros on the left up to \<open>r\<close> digits.
\<close>

definition intToBinaryArray :: "nat \<Rightarrow> int \<Rightarrow> nat list" where
  "intToBinaryArray n rr =
     (if rr \<le> 0 then []
      else let digits = toBinary n in replicate (nat rr - length digits) 0 @ digits)"

text \<open>\<^verbatim>\<open>parseInt(binaryArray.join(''), 2)\<close>, for an array of digits 0 and 1.\<close>

definition binaryArrayToInt :: "nat list \<Rightarrow> nat" where
  "binaryArrayToInt binaryArray =
     (if length binaryArray = 0 then 0 else foldl (\<lambda>acc bit. 2 * acc + bit) 0 binaryArray)"

text \<open>The flipped index is below \<open>r\<close>, a draw being below 1, and the array has at least
  \<open>r\<close> entries: the write is inside the array.\<close>

definition singleBitFlipNeighbor :: "nat \<Rightarrow> int \<Rightarrow> rng \<Rightarrow> nat \<times> rng" where
  "singleBitFlipNeighbor state rr g =
     (if rr \<le> 0 then (state, g)
      else
        let binaryArray = intToBinaryArray state rr;
            (u, g1) = random g;
            flipIndex = floorTimes u (nat rr)
        in (binaryArrayToInt (binaryArray[flipIndex := 1 - binaryArray ! flipIndex]), g1))"

text \<open>
  The while loop of \<open>twoBitFlipNeighbor\<close> draws until it holds two different indices.
  On a stream that repeats the first index for ever it does not end: the result is
  \<open>None\<close> then.
\<close>

partial_function (option) pickIndices :: "nat \<Rightarrow> nat list \<Rightarrow> rng \<Rightarrow> (nat list \<times> rng) option" where
  "pickIndices k indices g =
     (if length indices < 2 then
        (case random g of (u, g1) \<Rightarrow>
           let index = floorTimes u k
           in if index \<in> set indices then pickIndices k indices g1
              else pickIndices k (indices @ [index]) g1)
      else Some (indices, g))"

definition twoBitFlipNeighbor :: "nat \<Rightarrow> int \<Rightarrow> rng \<Rightarrow> (nat \<times> rng) option" where
  "twoBitFlipNeighbor state rr g =
     (if rr < 2 then Some (state, g)
      else
        case pickIndices (nat rr) [] g of
          None \<Rightarrow> None
        | Some (indices, g1) \<Rightarrow>
            Some (binaryArrayToInt
                    (fold (\<lambda>index binaryArray. binaryArray[index := 1 - binaryArray ! index])
                       indices (intToBinaryArray state rr)), g1))"

definition randomWalkNeighbor :: "nat \<Rightarrow> int \<Rightarrow> rng \<Rightarrow> nat \<times> rng" where
  "randomWalkNeighbor state rr g =
     (if rr \<le> 0 then (0, g)
      else let (u, g1) = random g in (floorTimes u (2 ^ nat rr), g1))"

definition generateNeighbor :: "nat \<Rightarrow> int \<Rightarrow> neighborType \<Rightarrow> rng \<Rightarrow> (nat \<times> rng) option" where
  "generateNeighbor state rr nt g =
     (case nt of
        SingleBitFlip \<Rightarrow> Some (singleBitFlipNeighbor state rr g)
      | TwoBitFlip \<Rightarrow> twoBitFlipNeighbor state rr g
      | RandomWalk \<Rightarrow> Some (randomWalkNeighbor state rr g))"

text \<open>
  \<open>calculateTemperature\<close>. The linear schedule divides by \<open>maxIterations\<close>, which the
  page keeps between 10 and 500. For \<open>maxIterations = 0\<close> the quotient is
  \<^verbatim>\<open>Infinity\<close> or \<^verbatim>\<open>NaN\<close> in JavaScript and 0 here; no property below reads a
  linear temperature.
\<close>

definition calculateTemperature ::
  "nat \<Rightarrow> real \<Rightarrow> real \<Rightarrow> nat \<Rightarrow> coolingSchedule \<Rightarrow> real" where
  "calculateTemperature iter initialTemp rate maxIter schedule =
     (case schedule of
        Geometric \<Rightarrow> initialTemp * rate ^ iter
      | Linear \<Rightarrow> max (initialTemp - (initialTemp / real maxIter) * real iter) 0.001
      | Logarithmic \<Rightarrow> max (initialTemp / (1 + ln (1 + real iter + 1))) 0.001)"

definition calculateAcceptanceProbability :: "real \<Rightarrow> real \<Rightarrow> real \<Rightarrow> real" where
  "calculateAcceptanceProbability currentVal neighborValue temp =
     (let delta = neighborValue - currentVal
      in if delta \<ge> 0 then 1.0
         else if temp \<le> 1 / 10 ^ 6 then 0.0
         else exp (delta / temp))"

definition getInitialToyState :: SimulatedAnnealingToyState where
  "getInitialToyState =
     \<lparr>history = [], bestState = 0, bestValue = NegInfinity, acceptedWorse = 0,
      currentIteration = 0, searchSpace = [], currentState = 0, currentValue = 0,
      isComplete = False\<rparr>"

text \<open>The table of the whole search space, built by both \<open>runToySimulation\<close> and
  \<open>initializeToySimulation\<close> when \<open>r \<le> 8\<close>.\<close>

definition buildSearchSpace :: "ToySimulationParams \<Rightarrow> (nat \<times> real) list" where
  "buildSearchSpace params =
     (if r params \<le> 8
      then map (\<lambda>state. (state, evaluatePolynomial state (coefficients params)))
             [0..<2 ^ nat (r params)]
      else [])"

definition initializeToySimulation ::
  "ToySimulationParams \<Rightarrow> rng \<Rightarrow> SimulatedAnnealingToyState \<times> rng" where
  "initializeToySimulation params g =
     (if r params \<le> 0 then (getInitialToyState, g)
      else
        let (u, g1) = random g;
            initialState = floorTimes u (2 ^ nat (r params));
            initialValue = evaluatePolynomial initialState (coefficients params);
            initialTemp = calculateTemperature 0 (initialTemperature_t params)
                            (coolingRate_t params) (maxIterations params) (coolingSchedule params)
        in (\<lparr>history = [\<lparr>iteration_d = 0, state_d = initialState, value_d = initialValue,
                          bestValue_d = Num initialValue, temperature_d = initialTemp,
                          acceptanceProbability_d = 1.0,
                          binaryRepresentation_d = intToBinaryArray initialState (r params)\<rparr>],
             bestState = initialState, bestValue = Num initialValue, acceptedWorse = 0,
             currentIteration = 0, searchSpace = buildSearchSpace params,
             currentState = initialState, currentValue = initialValue,
             isComplete = False\<rparr>, g1))"

definition runSingleIteration ::
  "SimulatedAnnealingToyState \<Rightarrow> ToySimulationParams \<Rightarrow> rng
     \<Rightarrow> (SimulatedAnnealingToyState \<times> rng) option" where
  "runSingleIteration state params g =
     (if currentIteration state \<ge> maxIterations params \<or> isComplete state
      then Some (state\<lparr>isComplete := True\<rparr>, g)
      else
        let nextIteration = currentIteration state + 1;
            temp = calculateTemperature nextIteration (initialTemperature_t params)
                     (coolingRate_t params) (maxIterations params) (coolingSchedule params)
        in case generateNeighbor (currentState state) (r params) (neighborType params) g of
             None \<Rightarrow> None
           | Some (neighborState, g1) \<Rightarrow>
               let neighborValue = evaluatePolynomial neighborState (coefficients params);
                   acceptanceProbability =
                     calculateAcceptanceProbability (currentValue state) neighborValue temp;
                   (u, g2) = random g1;
                   shouldAccept = (u < acceptanceProbability);
                   newAcceptedWorse =
                     (if shouldAccept \<and> neighborValue < currentValue state
                      then acceptedWorse state + 1 else acceptedWorse state);
                   newCurrentState = (if shouldAccept then neighborState else currentState state);
                   newCurrentValue = (if shouldAccept then neighborValue else currentValue state);
                   better = jsLess (bestValue state) (Num newCurrentValue);
                   newBestState = (if better then newCurrentState else bestState state);
                   newBestValue = (if better then Num newCurrentValue else bestValue state);
                   newHistoryEntry =
                     \<lparr>iteration_d = nextIteration, state_d = newCurrentState,
                      value_d = newCurrentValue, bestValue_d = newBestValue,
                      temperature_d = temp, acceptanceProbability_d = acceptanceProbability,
                      binaryRepresentation_d = intToBinaryArray newCurrentState (r params)\<rparr>
               in Some (state\<lparr>history := history state @ [newHistoryEntry],
                               bestState := newBestState,
                               bestValue := newBestValue,
                               acceptedWorse := newAcceptedWorse,
                               currentIteration := nextIteration,
                               currentState := newCurrentState,
                               currentValue := newCurrentValue,
                               isComplete := (nextIteration \<ge> maxIterations params)\<rparr>, g2))"

text \<open>
  The variables of \<open>runToySimulation\<close> that its for loop updates, with the suffix \<open>_v\<close>.
  \<open>bestValue\<close> is a real there: it starts as the value of the first state.
\<close>

record ToyLocals =
  currentState_v :: nat
  currentValue_v :: real
  bestState_v :: nat
  bestValue_v :: real
  acceptedWorse_v :: nat
  history_v :: "IterationData list"

text \<open>The body of the for loop of \<open>runToySimulation\<close>, up to the push on \<open>history\<close>.\<close>

definition loopBody ::
  "ToySimulationParams \<Rightarrow> nat \<Rightarrow> ToyLocals \<Rightarrow> rng \<Rightarrow> (ToyLocals \<times> rng) option" where
  "loopBody params iter v g =
     (let temp = calculateTemperature iter (initialTemperature_t params)
                   (coolingRate_t params) (maxIterations params) (coolingSchedule params)
      in case generateNeighbor (currentState_v v) (r params) (neighborType params) g of
           None \<Rightarrow> None
         | Some (neighborState, g1) \<Rightarrow>
             let neighborValue = evaluatePolynomial neighborState (coefficients params);
                 acceptanceProbability =
                   calculateAcceptanceProbability (currentValue_v v) neighborValue temp;
                 (u, g2) = random g1;
                 shouldAccept = (u < acceptanceProbability);
                 acceptedWorse1 =
                   (if shouldAccept \<and> neighborValue < currentValue_v v
                    then acceptedWorse_v v + 1 else acceptedWorse_v v);
                 currentState1 = (if shouldAccept then neighborState else currentState_v v);
                 currentValue1 = (if shouldAccept then neighborValue else currentValue_v v);
                 better = (currentValue1 > bestValue_v v);
                 bestState1 = (if better then currentState1 else bestState_v v);
                 bestValue1 = (if better then currentValue1 else bestValue_v v)
             in Some (\<lparr>currentState_v = currentState1, currentValue_v = currentValue1,
                       bestState_v = bestState1, bestValue_v = bestValue1,
                       acceptedWorse_v = acceptedWorse1,
                       history_v = history_v v @
                         [\<lparr>iteration_d = iter, state_d = currentState1,
                           value_d = currentValue1, bestValue_d = Num bestValue1,
                           temperature_d = temp,
                           acceptanceProbability_d = acceptanceProbability,
                           binaryRepresentation_d =
                             intToBinaryArray currentState1 (r params)\<rparr>]\<rparr>, g2))"

text \<open>The for loop, from \<open>iteration\<close> on, with its \<^verbatim>\<open>break\<close>.\<close>

function toyLoop ::
  "ToySimulationParams \<Rightarrow> nat \<Rightarrow> ToyLocals \<Rightarrow> rng \<Rightarrow> (ToyLocals \<times> rng) option" where
  "toyLoop params iter v g =
     (if iter \<le> maxIterations params then
        (case loopBody params iter v g of
           None \<Rightarrow> None
         | Some (v1, g1) \<Rightarrow>
             if iter \<ge> maxIterations params then Some (v1, g1)
             else toyLoop params (iter + 1) v1 g1)
      else Some (v, g))"
  by pat_completeness auto
termination
  by (relation "measure (\<lambda>(params, iter, v, g). maxIterations params + 1 - iter)") auto

declare toyLoop.simps [simp del]

text \<open>The locals as they are when the loop is entered, for the first state \<open>s0\<close>.\<close>

definition toyLocals0 :: "ToySimulationParams \<Rightarrow> nat \<Rightarrow> ToyLocals" where
  "toyLocals0 params s0 =
     (let currentVal = evaluatePolynomial s0 (coefficients params);
          initialTemp = calculateTemperature 0 (initialTemperature_t params)
                          (coolingRate_t params) (maxIterations params) (coolingSchedule params)
      in \<lparr>currentState_v = s0, currentValue_v = currentVal,
          bestState_v = s0, bestValue_v = currentVal, acceptedWorse_v = 0,
          history_v = [\<lparr>iteration_d = 0, state_d = s0, value_d = currentVal,
                        bestValue_d = Num currentVal, temperature_d = initialTemp,
                        acceptanceProbability_d = 1.0,
                        binaryRepresentation_d = intToBinaryArray s0 (r params)\<rparr>]\<rparr>)"

text \<open>The object \<open>runToySimulation\<close> returns, from the locals; \<open>bound\<close> is
  \<open>maxIterations\<close> there.\<close>

definition toyResult ::
  "ToySimulationParams \<Rightarrow> nat \<Rightarrow> ToyLocals \<Rightarrow> SimulatedAnnealingToyState" where
  "toyResult params bound v =
     \<lparr>history = history_v v, bestState = bestState_v v, bestValue = Num (bestValue_v v),
      acceptedWorse = acceptedWorse_v v,
      currentIteration = min bound (length (history_v v) - 1),
      searchSpace = buildSearchSpace params,
      currentState = currentState_v v, currentValue = currentValue_v v,
      isComplete = True\<rparr>"

definition runToySimulation ::
  "ToySimulationParams \<Rightarrow> rng \<Rightarrow> (SimulatedAnnealingToyState \<times> rng) option" where
  "runToySimulation params g =
     (if r params \<le> 0 then Some (getInitialToyState, g)
      else
        let (u, g1) = random g;
            s0 = floorTimes u (2 ^ nat (r params))
        in case toyLoop params 1 (toyLocals0 params s0) g1 of
             None \<Rightarrow> None
           | Some (v, g2) \<Rightarrow> Some (toyResult params (maxIterations params) v, g2))"

text \<open>\<open>k\<close> calls of \<open>runSingleIteration\<close> in a row, as the animation loop of the page
  makes them.\<close>

fun singleIterations ::
  "nat \<Rightarrow> SimulatedAnnealingToyState \<Rightarrow> ToySimulationParams \<Rightarrow> rng
     \<Rightarrow> (SimulatedAnnealingToyState \<times> rng) option" where
  "singleIterations 0 state params g = Some (state, g)"
| "singleIterations (Suc k) state params g =
     (case runSingleIteration state params g of
        None \<Rightarrow> None
      | Some (state1, g1) \<Rightarrow> singleIterations k state1 params g1)"

text \<open>
  \<open>runToySimulation\<close> truncated at iteration \<open>k\<close>: the same run with its for loop
  stopped once iteration \<open>k\<close> is done. \<open>toyLoopTo\<close> is \<open>toyLoop\<close> with \<open>k\<close> for the bound
  of the loop; the temperatures still come from \<open>maxIterations\<close>.
\<close>

function toyLoopTo ::
  "ToySimulationParams \<Rightarrow> nat \<Rightarrow> nat \<Rightarrow> ToyLocals \<Rightarrow> rng \<Rightarrow> (ToyLocals \<times> rng) option" where
  "toyLoopTo params k iter v g =
     (if iter \<le> k then
        (case loopBody params iter v g of
           None \<Rightarrow> None
         | Some (v1, g1) \<Rightarrow> toyLoopTo params k (iter + 1) v1 g1)
      else Some (v, g))"
  by pat_completeness auto
termination
  by (relation "measure (\<lambda>(params, k, iter, v, g). k + 1 - iter)") auto

declare toyLoopTo.simps [simp del]

definition runTruncated ::
  "ToySimulationParams \<Rightarrow> nat \<Rightarrow> rng \<Rightarrow> (SimulatedAnnealingToyState \<times> rng) option" where
  "runTruncated params k g =
     (if r params \<le> 0 then Some (getInitialToyState, g)
      else
        let (u, g1) = random g;
            s0 = floorTimes u (2 ^ nat (r params))
        in case toyLoopTo params k 1 (toyLocals0 params s0) g1 of
             None \<Rightarrow> None
           | Some (v, g2) \<Rightarrow> Some (toyResult params k v, g2))"

text \<open>Two states that agree on every field but \<open>isComplete\<close>.\<close>

definition sameRun :: "SimulatedAnnealingToyState \<Rightarrow> SimulatedAnnealingToyState \<Rightarrow> bool" where
  "sameRun a b = (a\<lparr>isComplete := True\<rparr> = b\<lparr>isComplete := True\<rparr>)"

subsection \<open>Notions used to state and prove the properties of the bitstring engine\<close>

text \<open>The invariant of the for loop behind the order of the \<open>bestValue\<close> entries: the
  entries of the history so far are in order, and none exceeds the best value so far.\<close>

definition bestInv :: "ToyLocals \<Rightarrow> bool" where
  "bestInv v =
     (sorted_wrt jsLessEq (map bestValue_d (history_v v)) \<and>
      (\<forall>e \<in> set (history_v v). jsLessEq (bestValue_d e) (Num (bestValue_v v))))"

text \<open>The state object that holds the locals of \<open>runToySimulation\<close>, at a given iteration
  count and completion flag.\<close>

definition stateOf ::
  "ToySimulationParams \<Rightarrow> nat \<Rightarrow> bool \<Rightarrow> ToyLocals \<Rightarrow> SimulatedAnnealingToyState" where
  "stateOf params iter c v =
     \<lparr>history = history_v v, bestState = bestState_v v, bestValue = Num (bestValue_v v),
      acceptedWorse = acceptedWorse_v v, currentIteration = iter,
      searchSpace = buildSearchSpace params,
      currentState = currentState_v v, currentValue = currentValue_v v, isComplete = c\<rparr>"

section \<open>Data of the worked examples\<close>

text \<open>Three cities at the corners of a right triangle with sides 3, 4 and 5, the
  parameters the page starts with, and the state \<open>initializeSimulation\<close> returns for them
  when every draw is 0.\<close>

definition triangle :: "City list" where
  "triangle = [\<lparr>id_c = 0, x = 0, y = 0\<rparr>, \<lparr>id_c = 1, x = 3, y = 0\<rparr>, \<lparr>id_c = 2, x = 3, y = 4\<rparr>]"

text \<open>Four cities at the corners of a rectangle with sides 3 and 4.\<close>

definition rectangle :: "City list" where
  "rectangle = [\<lparr>id_c = 0, x = 0, y = 0\<rparr>, \<lparr>id_c = 1, x = 3, y = 0\<rparr>,
                \<lparr>id_c = 2, x = 3, y = 4\<rparr>, \<lparr>id_c = 3, x = 0, y = 4\<rparr>]"

definition tspParams :: SimulationParams where
  "tspParams = \<lparr>initialTemperature = 1000, coolingRate = 99 / 100, totalIterations_p = 3000\<rparr>"

definition triangleStart :: SimulationState where
  "triangleStart =
     \<lparr>cities = triangle, currentPath = [2, 1], bestPath = [2, 1], distances = [12],
      currentDistance = 12, bestDistance = 12, temperature = 1000, iteration = 0,
      totalIterations = 3000, isRunning = True, animationSpeed = 1\<rparr>"

text \<open>
  Two bits, the polynomial \<open>1 - 2 n + 3 n^2\<close>, one iteration, every draw 0: the run
  starts at state 0 and the one iteration flips the first bit, to state 2. The
  degenerate parameters are the same with \<open>r = 0\<close>.
\<close>

definition toyParams :: ToySimulationParams where
  "toyParams = \<lparr>r = 2, maxIterations = 1, initialTemperature_t = 5, coolingRate_t = 99 / 100,
                 neighborType = SingleBitFlip, coolingSchedule = Geometric,
                 coefficients = [1, -2, 3]\<rparr>"

definition toySpace :: "(nat \<times> real) list" where
  "toySpace = [(0, 1), (1, 2), (2, 9), (3, 22)]"

definition toyEntry0 :: IterationData where
  "toyEntry0 = \<lparr>iteration_d = 0, state_d = 0, value_d = 1, bestValue_d = Num 1,
                 temperature_d = 5, acceptanceProbability_d = 1,
                 binaryRepresentation_d = [0, 0]\<rparr>"

definition toyEntry1 :: IterationData where
  "toyEntry1 = \<lparr>iteration_d = 1, state_d = 2, value_d = 9, bestValue_d = Num 9,
                 temperature_d = 99 / 20, acceptanceProbability_d = 1,
                 binaryRepresentation_d = [1, 0]\<rparr>"

definition toyStart :: SimulatedAnnealingToyState where
  "toyStart = \<lparr>history = [toyEntry0], bestState = 0, bestValue = Num 1, acceptedWorse = 0,
                currentIteration = 0, searchSpace = toySpace, currentState = 0,
                currentValue = 1, isComplete = False\<rparr>"

definition toyAfter1 :: SimulatedAnnealingToyState where
  "toyAfter1 = \<lparr>history = [toyEntry0, toyEntry1], bestState = 2, bestValue = Num 9,
                 acceptedWorse = 0, currentIteration = 1, searchSpace = toySpace,
                 currentState = 2, currentValue = 9, isComplete = True\<rparr>"

definition degenerateParams :: ToySimulationParams where
  "degenerateParams = toyParams\<lparr>r := 0\<rparr>"

definition degenerateAfter1 :: SimulatedAnnealingToyState where
  "degenerateAfter1 =
     \<lparr>history = [\<lparr>iteration_d = 1, state_d = 0, value_d = 1, bestValue_d = Num 1,
                   temperature_d = 99 / 20, acceptanceProbability_d = 1,
                   binaryRepresentation_d = []\<rparr>],
      bestState = 0, bestValue = Num 1, acceptedWorse = 0, currentIteration = 1,
      searchSpace = [], currentState = 0, currentValue = 1, isComplete = True\<rparr>"

section \<open>Properties of the draws\<close>

lemma random_range: "0 \<le> fst (random g) \<and> fst (random g) < 1"
  by (simp add: random_def frac_lt_1)

lemma floorTimes_less:
  assumes "0 \<le> u" "u < 1" "0 < k"
  shows "floorTimes u k < k"
proof -
  have "u * real k < real k" using assms by simp
  then have "\<lfloor>u * real k\<rfloor> < int k" by (simp add: floor_less_iff)
  moreover have "0 \<le> \<lfloor>u * real k\<rfloor>" using assms by simp
  ultimately show ?thesis by (simp add: floorTimes_def nat_less_iff)
qed

lemma random_sconst: "random (sconst c) = (frac c, sconst c)"
  by (simp add: random_def)

lemma frac_unit: "0 \<le> u \<Longrightarrow> u < 1 \<Longrightarrow> frac u = (u::real)"
  by (simp add: frac_eq)

lemma floorTimes_bucket:
  assumes "0 < n" "0 \<le> u"
  shows "floorTimes u n = j \<longleftrightarrow> real j / real n \<le> u \<and> u < real (j + 1) / real n"
proof -
  have nn: "0 \<le> u * real n" using assms by simp
  have "floorTimes u n = j \<longleftrightarrow> \<lfloor>u * real n\<rfloor> = int j"
    using nn by (auto simp: floorTimes_def)
  also have "\<dots> \<longleftrightarrow> real j \<le> u * real n \<and> u * real n < real j + 1"
    by (simp add: floor_eq_iff)
  also have "\<dots> \<longleftrightarrow> real j / real n \<le> u \<and> u < real (j + 1) / real n"
    using assms(1) by (simp add: pos_divide_le_eq pos_less_divide_eq add.commute)
  finally show ?thesis .
qed

text \<open>The strips of first draws that are mapped to different buckets do not meet.\<close>

lemma bucket_strips_disjoint:
  assumes "0 < n" "j \<noteq> k"
  shows "{real j / real n ..< real (j + 1) / real n} \<inter> {real k / real n ..< real (k + 1) / real n} = {}"
proof -
  have le: "real (a + 1) / real n \<le> real b / real n" if "a < b" for a b :: nat
    using that assms(1) by (simp add: divide_right_mono)
  consider "j < k" | "k < j" using assms(2) by linarith
  then show ?thesis
  proof cases
    case 1
    then show ?thesis using le[of j k] by auto
  next
    case 2
    then show ?thesis using le[of k j] by auto
  qed
qed

section \<open>Properties of the alias method\<close>

subsection \<open>The while loop and its invariants\<close>

lemma foldl_add_sum_list: "foldl (\<lambda>acc val. acc + val) a xs = a + sum_list (xs::real list)"
  by (induction xs arbitrary: a) auto

lemma aliasInv_step:
  assumes "aliasInv n sc pt al (sm @ [s]) (lg @ [l])"
  defines "sc1 \<equiv> sc[l := sc ! l - (1 - sc ! s)]"
  shows "sc1 ! l < 1 \<Longrightarrow> aliasInv n sc1 (pt[s := sc ! s]) (al[s := l]) (sm @ [l]) lg"
    and "\<not> sc1 ! l < 1 \<Longrightarrow> aliasInv n sc1 (pt[s := sc ! s]) (al[s := l]) sm (lg @ [l])"
proof -
  from assms(1) have len: "length sc = n" "length pt = n" "length al = n"
    and sl: "s < n" "l < n" "s \<noteq> l" "s \<notin> set sm" "l \<notin> set lg" "s \<notin> set lg" "l \<notin> set sm"
    and d: "distinct (sm @ lg)"
    and bs: "0 \<le> sc ! s" "sc ! s < 1" and bl: "1 \<le> sc ! l"
    by (auto simp: aliasInv_def)
  have l1: "sc1 ! l = sc ! l - (1 - sc ! s)" using len sl by (simp add: sc1_def)
  have oth: "\<And>i. i \<noteq> l \<Longrightarrow> sc1 ! i = sc ! i" by (simp add: sc1_def)
  have nn: "0 \<le> sc1 ! l" using l1 bs bl by simp
  show "sc1 ! l < 1 \<Longrightarrow> aliasInv n sc1 (pt[s := sc ! s]) (al[s := l]) (sm @ [l]) lg"
    using assms(1) len sl d bs nn oth
    unfolding aliasInv_def
    by (auto simp: nth_list_update sc1_def)
  show "\<not> sc1 ! l < 1 \<Longrightarrow> aliasInv n sc1 (pt[s := sc ! s]) (al[s := l]) sm (lg @ [l])"
    using assms(1) len sl d bs nn oth
    unfolding aliasInv_def
    by (auto simp: nth_list_update sc1_def)
qed

lemma aliasLoop_rule:
  assumes init: "P sc pt al small large"
    and toSmall: "\<And>sc pt al sm s lg l.
           P sc pt al (sm @ [s]) (lg @ [l]) \<Longrightarrow> sc ! l - (1 - sc ! s) < 1 \<Longrightarrow>
           P (sc[l := sc ! l - (1 - sc ! s)]) (pt[s := sc ! s]) (al[s := l]) (sm @ [l]) lg"
    and toLarge: "\<And>sc pt al sm s lg l.
           P sc pt al (sm @ [s]) (lg @ [l]) \<Longrightarrow> \<not> sc ! l - (1 - sc ! s) < 1 \<Longrightarrow>
           P (sc[l := sc ! l - (1 - sc ! s)]) (pt[s := sc ! s]) (al[s := l]) sm (lg @ [l])"
    and inRange: "\<And>sc pt al sm s lg l. P sc pt al (sm @ [s]) (lg @ [l]) \<Longrightarrow> l < length sc"
    and run: "aliasLoop sc pt al small large = (sc', pt', al', small', large')"
  shows "P sc' pt' al' small' large' \<and> (small' = [] \<or> large' = [])"
  using init run
proof (induction sc pt al small large rule: aliasLoop.induct)
  case (1 sc pt al small large)
  show ?case
  proof (cases "small \<noteq> [] \<and> large \<noteq> []")
    case False
    with "1.prems"(2) have "(sc', pt', al', small', large') = (sc, pt, al, small, large)"
      by (subst (asm) aliasLoop.simps) simp
    with "1.prems"(1) False show ?thesis by auto
  next
    case True
    then obtain sm s lg l where sm: "small = sm @ [s]" and lg: "large = lg @ [l]"
      by (metis rev_exhaust)
    have P0: "P sc pt al (sm @ [s]) (lg @ [l])" using "1.prems"(1) sm lg by simp
    have l: "l < length sc" using inRange[OF P0] .
    define v where "v = sc ! l - (1 - sc ! s)"
    show ?thesis
    proof (cases "v < 1")
      case lt: True
      have run1: "aliasLoop (sc[l := v]) (pt[s := sc ! s]) (al[s := l]) (sm @ [l]) lg
                   = (sc', pt', al', small', large')"
        using "1.prems"(2) lt l by (subst (asm) aliasLoop.simps) (simp add: sm lg v_def Let_def)
      have ih: "P (sc[l := v]) (pt[s := sc ! s]) (al[s := l]) (sm @ [l]) lg \<Longrightarrow>
                aliasLoop (sc[l := v]) (pt[s := sc ! s]) (al[s := l]) (sm @ [l]) lg
                   = (sc', pt', al', small', large') \<Longrightarrow> ?thesis"
        using "1.IH"(1)[OF True refl refl refl refl refl refl refl] lt l
        by (simp add: sm lg v_def)
      show ?thesis using ih run1 toSmall[OF P0] lt by (simp add: v_def)
    next
      case ge: False
      have run1: "aliasLoop (sc[l := v]) (pt[s := sc ! s]) (al[s := l]) sm (lg @ [l])
                   = (sc', pt', al', small', large')"
        using "1.prems"(2) ge l by (subst (asm) aliasLoop.simps) (simp add: sm lg v_def Let_def)
      have ih: "P (sc[l := v]) (pt[s := sc ! s]) (al[s := l]) sm (lg @ [l]) \<Longrightarrow>
                aliasLoop (sc[l := v]) (pt[s := sc ! s]) (al[s := l]) sm (lg @ [l])
                   = (sc', pt', al', small', large') \<Longrightarrow> ?thesis"
        using "1.IH"(2)[OF True refl refl refl refl refl refl refl] ge l
        by (simp add: sm lg v_def)
      show ?thesis using ih run1 toLarge[OF P0] ge by (simp add: v_def)
    qed
  qed
qed

lemma finite_donors [simp]: "finite (donors n al W i)"
  by (simp add: donors_def)

lemma donors_step:
  assumes "s \<in> W" "s < n" "length al = n"
  shows "donors n (al[s := l]) (W - {s}) i = (if i = l then insert s (donors n al W i) else donors n al W i)"
  using assms by (auto simp: donors_def nth_list_update)

lemma massInv_step:
  assumes m: "massInv orig n sc pt al W"
    and fin: "finite W"
    and s: "s \<in> W" "s < n" and l: "l \<in> W" "l < n" and ne: "s \<noteq> l"
    and len: "length sc = n" "length pt = n" "length al = n"
  shows "massInv orig n (sc[l := sc ! l - (1 - sc ! s)]) (pt[s := sc ! s]) (al[s := l]) (W - {s})"
proof -
  let ?sc = "sc[l := sc ! l - (1 - sc ! s)]" and ?pt = "pt[s := sc ! s]" and ?al = "al[s := l]"
  have sn: "\<And>i. s \<notin> donors n al W i" using s by (simp add: donors_def)
  have same: "\<And>i. (\<Sum>j \<in> donors n al W i. 1 - ?pt ! j) = (\<Sum>j \<in> donors n al W i. 1 - pt ! j)"
  proof (rule sum.cong)
    fix i x assume "x \<in> donors n al W i"
    then have "x \<noteq> s" using sn by blast
    then show "1 - ?pt ! x = 1 - pt ! x" by simp
  qed simp
  have point: "(if i \<in> W - {s} then ?sc ! i else ?pt ! i) + (\<Sum>j \<in> donors n ?al (W - {s}) i. 1 - ?pt ! j)
                = orig ! i" if i: "i < n" for i
  proof -
    have old: "(if i \<in> W then sc ! i else pt ! i) + (\<Sum>j \<in> donors n al W i. 1 - pt ! j) = orig ! i"
      using m i by (simp add: massInv_def)
    show ?thesis
    proof (cases "i = l")
      case True
      have "(\<Sum>j \<in> donors n ?al (W - {s}) l. 1 - ?pt ! j)
            = (1 - sc ! s) + (\<Sum>j \<in> donors n al W l. 1 - pt ! j)"
        using s len sn same by (simp add: donors_step)
      then show ?thesis using old True l ne len by simp
    next
      case False
      then show ?thesis using old s len ne same by (auto simp: donors_step nth_list_update)
    qed
  qed
  have "(\<Sum>i \<in> W - {s}. ?sc ! i) = (\<Sum>i \<in> W - {s} - {l}. ?sc ! i) + ?sc ! l"
    using fin l ne by (simp add: sum.remove[of _ l])
  also have "(\<Sum>i \<in> W - {s} - {l}. ?sc ! i) = (\<Sum>i \<in> W - {s} - {l}. sc ! i)"
    by (rule sum.cong) auto
  also have "?sc ! l = sc ! l - (1 - sc ! s)" using l len by simp
  also have "(\<Sum>i \<in> W - {s} - {l}. sc ! i) + (sc ! l - (1 - sc ! s)) = (\<Sum>i \<in> W. sc ! i) - 1"
    using fin s l ne by (simp add: sum.remove[of W s] sum.remove[of "W - {s}" l])
  also have "\<dots> = real (card (W - {s}))"
  proof -
    have "0 < card W" using fin s by (auto simp: card_gt_0_iff)
    then have "real (card (W - {s})) = real (card W) - 1"
      using fin s by (simp add: card_Diff_singleton of_nat_diff Suc_leI)
    then show ?thesis using m by (simp add: massInv_def)
  qed
  finally have total: "(\<Sum>i \<in> W - {s}. ?sc ! i) = real (card (W - {s}))" .
  show ?thesis unfolding massInv_def using point total by blast
qed

lemma setOnes_length [simp]: "length (setOnes idxs pt) = length pt"
  unfolding setOnes_def by (induction idxs arbitrary: pt) auto

lemma setOnes_nth:
  "i < length pt \<Longrightarrow> setOnes idxs pt ! i = (if i \<in> set idxs then 1 else pt ! i)"
  unfolding setOnes_def
  by (induction idxs arbitrary: pt) (auto simp: nth_list_update)

lemma aliasInv_start:
  assumes "\<forall>p \<in> set probs. 0 \<le> p"
  shows "case aliasStart probs of (sc, pt, al, small, large) \<Rightarrow>
           aliasInv (length probs) sc pt al small large"
  using assms by (auto simp: aliasStart_def aliasInv_def Let_def)

lemma sum_nth_upt: "(\<Sum>i \<in> {..<length xs}. f (xs ! i)) = sum_list (map f xs)"
proof -
  have "sum_list (map f xs) = (\<Sum>i = 0..<length (map f xs). map f xs ! i)"
    by (rule sum_list_sum_nth)
  also have "\<dots> = (\<Sum>i \<in> {..<length xs}. f (xs ! i))"
    by (rule sum.cong) auto
  finally show ?thesis by simp
qed

lemma massInv_start:
  assumes "sum_list probs = 1"
  shows "case aliasStart probs of (sc, pt, al, small, large) \<Rightarrow>
           massInv sc (length probs) sc pt al (set small \<union> set large)"
proof -
  let ?n = "length probs"
  let ?sc = "map (\<lambda>p. p * real ?n) probs"
  have W: "set (filter (\<lambda>i. ?sc ! i < 1) [0..<?n]) \<union> set (filter (\<lambda>i. \<not> ?sc ! i < 1) [0..<?n]) = {..<?n}"
    by auto
  have "(\<Sum>i \<in> {..<?n}. ?sc ! i) = (\<Sum>i \<in> {..<?n}. probs ! i * real ?n)"
    by (rule sum.cong) auto
  also have "\<dots> = sum_list (map (\<lambda>p. p * real ?n) probs)"
    by (rule sum_nth_upt)
  also have "\<dots> = sum_list probs * real ?n"
    by (simp add: sum_list_mult_const)
  finally have tot: "(\<Sum>i \<in> {..<?n}. ?sc ! i) = real (card {..<?n})"
    using assms by simp
  show ?thesis
    unfolding aliasStart_def Let_def prod.case massInv_def W
    using tot by (auto simp: donors_def)
qed

lemma fullInv_loop:
  assumes "fullInv orig n sc pt al small large"
    and "aliasLoop sc pt al small large = (sc', pt', al', small', large')"
  shows "fullInv orig n sc' pt' al' small' large' \<and> (small' = [] \<or> large' = [])"
proof (rule aliasLoop_rule[where P = "fullInv orig n", OF assms(1) _ _ _ assms(2)])
  fix sc pt al sm s lg l
  assume P: "fullInv orig n sc pt al (sm @ [s]) (lg @ [l])"
  then have inv: "aliasInv n sc pt al (sm @ [s]) (lg @ [l])"
    and m: "massInv orig n sc pt al (set (sm @ [s]) \<union> set (lg @ [l]))"
    by (simp_all add: fullInv_def)
  from inv have len: "length sc = n" "length pt = n" "length al = n"
    and sl: "s < n" "l < n" "s \<noteq> l" "s \<notin> set sm" "s \<notin> set lg"
    by (auto simp: aliasInv_def)
  show "l < length sc" using len sl by simp
  have m': "massInv orig n (sc[l := sc ! l - (1 - sc ! s)]) (pt[s := sc ! s]) (al[s := l])
              ((set (sm @ [s]) \<union> set (lg @ [l])) - {s})"
    by (rule massInv_step[OF m]) (use len sl in auto)
  have W1: "(set (sm @ [s]) \<union> set (lg @ [l])) - {s} = set (sm @ [l]) \<union> set lg"
    and W2: "(set (sm @ [s]) \<union> set (lg @ [l])) - {s} = set sm \<union> set (lg @ [l])"
    using sl by auto
  have l1: "sc[l := sc ! l - (1 - sc ! s)] ! l = sc ! l - (1 - sc ! s)" using len sl by simp
  show "sc ! l - (1 - sc ! s) < 1 \<Longrightarrow>
        fullInv orig n (sc[l := sc ! l - (1 - sc ! s)]) (pt[s := sc ! s]) (al[s := l]) (sm @ [l]) lg"
    using aliasInv_step(1)[OF inv] m' l1 unfolding fullInv_def W1[symmetric] by simp
  show "\<not> sc ! l - (1 - sc ! s) < 1 \<Longrightarrow>
        fullInv orig n (sc[l := sc ! l - (1 - sc ! s)]) (pt[s := sc ! s]) (al[s := l]) sm (lg @ [l])"
    using aliasInv_step(2)[OF inv] m' l1 unfolding fullInv_def W2[symmetric] by simp
qed

lemma sum_eq_card_ge1:
  fixes f :: "nat \<Rightarrow> real"
  assumes "finite W" "\<forall>i \<in> W. 1 \<le> f i" "sum f W = real (card W)"
  shows "\<forall>i \<in> W. f i = 1"
proof -
  have "(\<Sum>i \<in> W. f i - 1) = 0" using assms(3) by (simp add: sum_subtractf)
  moreover have "\<forall>i \<in> W. 0 \<le> f i - 1" using assms(2) by simp
  ultimately have "\<forall>i \<in> W. f i - 1 = 0" using assms(1) by (simp add: sum_nonneg_eq_0_iff)
  then show ?thesis by simp
qed

lemma sum_eq_card_lt1:
  fixes f :: "nat \<Rightarrow> real"
  assumes "finite W" "\<forall>i \<in> W. f i < 1" "sum f W = real (card W)"
  shows "W = {}"
proof -
  have "(\<Sum>i \<in> W. 1 - f i) = 0" using assms(3) by (simp add: sum_subtractf)
  moreover have "\<forall>i \<in> W. 0 \<le> 1 - f i" using assms(2) by (simp add: less_imp_le)
  ultimately have "\<forall>i \<in> W. 1 - f i = 0" using assms(1) by (simp add: sum_nonneg_eq_0_iff)
  then show ?thesis using assms(2) by fastforce
qed

lemma fullInv_end:
  assumes P: "fullInv orig n sc pt al small large" and e: "small = [] \<or> large = []"
  shows "small = []" and "\<forall>i \<in> set large. sc ! i = 1"
proof -
  from P have inv: "aliasInv n sc pt al small large"
    and tot: "(\<Sum>i \<in> set small \<union> set large. sc ! i) = real (card (set small \<union> set large))"
    by (simp_all add: fullInv_def massInv_def)
  show s: "small = []"
  proof (rule ccontr)
    assume ne: "small \<noteq> []"
    with e have "large = []" by simp
    with tot have "(\<Sum>i \<in> set small. sc ! i) = real (card (set small))" by simp
    moreover have "\<forall>i \<in> set small. sc ! i < 1" using inv by (simp add: aliasInv_def)
    ultimately have "set small = {}" using sum_eq_card_lt1[of "set small" "\<lambda>i. sc ! i"] by simp
    with ne show False by simp
  qed
  have "\<forall>i \<in> set large. 1 \<le> sc ! i" using inv by (simp add: aliasInv_def)
  then show "\<forall>i \<in> set large. sc ! i = 1"
    using sum_eq_card_ge1[of "set large" "\<lambda>i. sc ! i"] tot s by simp
qed

lemma aliasMass_final:
  assumes P: "fullInv orig n sc pt al [] large" and one: "\<forall>i \<in> set large. sc ! i = 1"
    and i: "i < n"
  shows "aliasMass (setOnes [] (setOnes large pt)) al i = orig ! i"
proof -
  let ?pt = "setOnes [] (setOnes large pt)"
  from P have inv: "aliasInv n sc pt al [] large" and m: "massInv orig n sc pt al (set large)"
    by (simp_all add: fullInv_def)
  from inv have len: "length pt = n" by (simp add: aliasInv_def)
  have nth: "\<And>j. j < n \<Longrightarrow> ?pt ! j = (if j \<in> set large then 1 else pt ! j)"
    using len by (simp add: setOnes_nth)
  have dn: "\<And>j. j < n \<Longrightarrow> j \<notin> set large \<Longrightarrow> pt ! j < 1"
    using inv by (simp add: aliasInv_def)
  have set_eq: "set (filter (\<lambda>j. al ! j = i \<and> ?pt ! j < 1) [0..<length ?pt]) = donors n al (set large) i"
    using len nth dn by (auto simp: donors_def)
  have "sum_list (map (\<lambda>j. 1 - ?pt ! j) (filter (\<lambda>j. al ! j = i \<and> ?pt ! j < 1) [0..<length ?pt]))
        = (\<Sum>j \<in> donors n al (set large) i. 1 - ?pt ! j)"
    by (subst sum_list_distinct_conv_sum_set) (simp_all only: set_eq distinct_filter distinct_upt)
  also have "\<dots> = (\<Sum>j \<in> donors n al (set large) i. 1 - pt ! j)"
    by (rule sum.cong) (auto simp: donors_def nth)
  finally have s: "sum_list (map (\<lambda>j. 1 - ?pt ! j) (filter (\<lambda>j. al ! j = i \<and> ?pt ! j < 1) [0..<length ?pt]))
        = (\<Sum>j \<in> donors n al (set large) i. 1 - pt ! j)" .
  have "?pt ! i = (if i \<in> set large then sc ! i else pt ! i)"
    using nth[OF i] one by simp
  then show ?thesis
    unfolding aliasMass_def s using m i by (simp add: massInv_def)
qed

lemma createAliasTables_loop:
  "createAliasTables probs =
     (case aliasStart probs of (sc, pt, al, small, large) \<Rightarrow>
        (case aliasLoop sc pt al small large of
           (sc1, pt1, al1, small1, large1) \<Rightarrow> (setOnes small1 (setOnes large1 pt1), al1)))"
  by (simp add: createAliasTables_def aliasStart_def Let_def)

lemma aliasInv_loop:
  assumes "aliasInv n sc pt al small large"
    and run: "aliasLoop sc pt al small large = (sc1, pt1, al1, small1, large1)"
  shows "aliasInv n sc1 pt1 al1 small1 large1"
proof -
  have "aliasInv n sc1 pt1 al1 small1 large1 \<and> (small1 = [] \<or> large1 = [])"
  proof (rule aliasLoop_rule[where P = "aliasInv n", OF assms(1) _ _ _ run])
    fix sc pt al sm s lg l
    assume inv: "aliasInv n sc pt al (sm @ [s]) (lg @ [l])"
    then have l: "l < length sc" by (simp add: aliasInv_def)
    then have l1: "sc[l := sc ! l - (1 - sc ! s)] ! l = sc ! l - (1 - sc ! s)" by simp
    show "l < length sc" by (rule l)
    show "sc ! l - (1 - sc ! s) < 1 \<Longrightarrow>
          aliasInv n (sc[l := sc ! l - (1 - sc ! s)]) (pt[s := sc ! s]) (al[s := l]) (sm @ [l]) lg"
      using aliasInv_step(1)[OF inv] l1 by simp
    show "\<not> sc ! l - (1 - sc ! s) < 1 \<Longrightarrow>
          aliasInv n (sc[l := sc ! l - (1 - sc ! s)]) (pt[s := sc ! s]) (al[s := l]) sm (lg @ [l])"
      using aliasInv_step(2)[OF inv] l1 by simp
  qed
  then show ?thesis by simp
qed

lemma tables_ranges:
  assumes nn: "\<forall>p \<in> set probs. 0 \<le> p"
    and st: "aliasStart probs = (sc, pt, al, small, large)"
    and run: "aliasLoop sc pt al small large = (sc1, pt1, al1, small1, large1)"
    and i: "i < length probs"
  shows "0 \<le> setOnes small1 (setOnes large1 pt1) ! i"
    and "setOnes small1 (setOnes large1 pt1) ! i \<le> 1"
    and "al1 ! i < length probs"
    and "i \<in> set small1 \<union> set large1 \<Longrightarrow> setOnes small1 (setOnes large1 pt1) ! i = 1"
proof -
  have "aliasInv (length probs) sc pt al small large"
    using aliasInv_start[OF nn] st by simp
  then have inv: "aliasInv (length probs) sc1 pt1 al1 small1 large1"
    using run by (rule aliasInv_loop)
  then have len: "length pt1 = length probs" by (simp add: aliasInv_def)
  have nth: "setOnes small1 (setOnes large1 pt1) ! i
               = (if i \<in> set small1 \<union> set large1 then 1 else pt1 ! i)"
    using i len by (simp add: setOnes_nth)
  have dn: "i \<notin> set small1 \<union> set large1 \<Longrightarrow> 0 \<le> pt1 ! i \<and> pt1 ! i < 1"
    using inv i unfolding aliasInv_def by blast
  show "0 \<le> setOnes small1 (setOnes large1 pt1) ! i" using nth dn by auto
  show "setOnes small1 (setOnes large1 pt1) ! i \<le> 1" using nth dn by auto
  show "al1 ! i < length probs" using inv i by (simp add: aliasInv_def)
  show "i \<in> set small1 \<union> set large1 \<Longrightarrow> setOnes small1 (setOnes large1 pt1) ! i = 1"
    using nth by simp
qed

text \<open>
  Claim C3. For every weight vector with non-negative entries, and so for every
  normalized one, whether its entries sum to 1 exactly or fall short of it or exceed it
  as a rounded vector's do, the two tables \<open>createAliasTables\<close> returns have \<open>n\<close>
  entries each, every entry of \<open>probTable\<close> lies in \<open>[0,1]\<close>, every entry of
  \<open>aliasTable\<close> is an index below \<open>n\<close>, and every index left in \<open>small\<close> or in
  \<open>large\<close> when the while loop ends has \<open>probTable\<close> entry 1.
\<close>

theorem createAliasTables_ranges:
  assumes "\<forall>p \<in> set probs. 0 \<le> p"
  shows "length (fst (createAliasTables probs)) = length probs \<and>
         length (snd (createAliasTables probs)) = length probs \<and>
         (\<forall>i < length probs.
            0 \<le> fst (createAliasTables probs) ! i \<and> fst (createAliasTables probs) ! i \<le> 1 \<and>
            snd (createAliasTables probs) ! i < length probs) \<and>
         (\<forall>i \<in> set (fst (leftover probs)) \<union> set (snd (leftover probs)).
            fst (createAliasTables probs) ! i = 1)"
proof -
  obtain sc pt al small large where st: "aliasStart probs = (sc, pt, al, small, large)"
    by (metis prod_cases5)
  obtain sc1 pt1 al1 small1 large1
    where run: "aliasLoop sc pt al small large = (sc1, pt1, al1, small1, large1)"
    by (metis prod_cases5)
  have tabs: "createAliasTables probs = (setOnes small1 (setOnes large1 pt1), al1)"
    by (simp add: createAliasTables_loop st run)
  have lo: "leftover probs = (small1, large1)"
    by (simp add: leftover_def st run)
  have "aliasInv (length probs) sc pt al small large"
    using aliasInv_start[OF assms] st by simp
  then have inv: "aliasInv (length probs) sc1 pt1 al1 small1 large1"
    using run by (rule aliasInv_loop)
  then have len: "length pt1 = length probs" "length al1 = length probs"
    and inr: "\<forall>i \<in> set small1 \<union> set large1. i < length probs"
    by (simp_all add: aliasInv_def)
  show ?thesis
    unfolding tabs lo fst_conv snd_conv
    using tables_ranges[OF assms st run] len inr by auto
qed

text \<open>
  The weights \<open>[1/4, 3/4]\<close>, where index 1 is left in \<open>large\<close>, and the weights
  \<open>[1/3, 1/3, 33/100]\<close>, whose sum falls short of 1 and where index 0 is left in
  \<open>small\<close>.
\<close>

theorem createAliasTables_ranges_witness:
  "createAliasTables [1/4, 3/4] = ([1/2, 1], [1, 0]) \<and> leftover [1/4, 3/4] = ([], [1]) \<and>
   length (fst (createAliasTables [1/4, 3/4])) = 2 \<and>
   0 \<le> fst (createAliasTables [1/4, 3/4]) ! 0 \<and> fst (createAliasTables [1/4, 3/4]) ! 0 \<le> 1 \<and>
   snd (createAliasTables [1/4, 3/4]) ! 0 < 2 \<and>
   fst (createAliasTables [1/4, 3/4]) ! 1 = 1 \<and>
   createAliasTables [1/3, 1/3, 33/100] = ([1, 99/100, 99/100], [0, 0, 1]) \<and>
   leftover [1/3, 1/3, 33/100] = ([0], []) \<and>
   fst (createAliasTables [1/3, 1/3, 33/100]) ! 0 = 1 \<and>
   snd (createAliasTables [1/3, 1/3, 33/100]) ! 2 < 3"
proof -
  have tabs: "createAliasTables [1/4, 3/4] = ([1/2, 1], [1, 0])"
    by (simp add: createAliasTables_def setOnes_def Let_def aliasLoop.simps)
  have lo: "leftover [1/4, 3/4] = ([], [1])"
    by (simp add: leftover_def aliasStart_def Let_def aliasLoop.simps)
  have tabs2: "createAliasTables [1/3, 1/3, 33/100] = ([1, 99/100, 99/100], [0, 0, 1])"
    by (simp add: createAliasTables_def setOnes_def Let_def aliasLoop.simps)
  have lo2: "leftover [1/3, 1/3, 33/100] = ([0], [])"
    by (simp add: leftover_def aliasStart_def Let_def aliasLoop.simps)
  have h: "\<forall>p \<in> set [1/4, 3/4 :: real]. 0 \<le> p"
    and h2: "\<forall>p \<in> set [1/3, 1/3, 33/100 :: real]. 0 \<le> p" by simp_all
  show ?thesis
    using createAliasTables_ranges[OF h] createAliasTables_ranges[OF h2] tabs lo tabs2 lo2
    by simp
qed

text \<open>
  The values of this development are exact reals. Over them a vector whose entries sum
  to exactly 1 leaves no index in \<open>small\<close>: an index is left there only when the sum
  is not 1, as in the second example above, which is what the rounding of a division
  by the sum can produce.
\<close>

lemma leftover_small_exact:
  assumes "\<forall>p \<in> set probs. 0 \<le> p" and "sum_list probs = 1"
  shows "fst (leftover probs) = []"
proof -
  obtain sc pt al small large where st: "aliasStart probs = (sc, pt, al, small, large)"
    by (metis prod_cases5)
  obtain sc1 pt1 al1 small1 large1
    where run: "aliasLoop sc pt al small large = (sc1, pt1, al1, small1, large1)"
    by (metis prod_cases5)
  have "fullInv sc (length probs) sc pt al small large"
    using aliasInv_start[OF assms(1)] massInv_start[OF assms(2)] st
    by (simp add: fullInv_def)
  then have "fullInv sc (length probs) sc1 pt1 al1 small1 large1" and "small1 = [] \<or> large1 = []"
    using fullInv_loop[OF _ run] by blast+
  then have "small1 = []" by (rule fullInv_end(1))
  then show ?thesis by (simp add: leftover_def st run)
qed

subsection \<open>One call of sample\<close>

lemma sample_one:
  assumes "0 \<le> u" "u < 1" "0 \<le> c" "c < 1"
  shows "fst (sample probTable aliasTable 1 (u ## c ## g))
           = [sampleOutcome probTable aliasTable (floorTimes u (length probTable)) c]"
  using assms by (simp add: random_def frac_unit Let_def)

lemma coinInterval_bounds:
  assumes "0 \<le> probTable ! j" "probTable ! j \<le> 1"
  shows "0 \<le> fst (coinInterval probTable aliasTable j i) \<and>
         fst (coinInterval probTable aliasTable j i) \<le> snd (coinInterval probTable aliasTable j i) \<and>
         snd (coinInterval probTable aliasTable j i) \<le> 1"
  using assms by (auto simp: coinInterval_def)

lemma coinInterval_outcome:
  assumes "j < length probTable" "length aliasTable = length probTable"
    and "0 \<le> probTable ! j" "probTable ! j \<le> 1" and "0 \<le> c" "c < 1"
  shows "sampleOutcome probTable aliasTable j c = Some i \<longleftrightarrow>
           fst (coinInterval probTable aliasTable j i) \<le> c \<and>
           c < snd (coinInterval probTable aliasTable j i)"
  using assms by (auto simp: sampleOutcome_def coinInterval_def)

lemma drawsReturning_rectangles:
  assumes len: "length aliasTable = length probTable" and pos: "0 < length probTable"
    and rng: "\<forall>j < length probTable. 0 \<le> probTable ! j \<and> probTable ! j \<le> 1"
  shows "drawsReturning probTable aliasTable g i =
           (\<Union>j < length probTable.
              {real j / real (length probTable) ..< real (j + 1) / real (length probTable)} \<times>
              {fst (coinInterval probTable aliasTable j i) ..<
               snd (coinInterval probTable aliasTable j i)})"
    (is "?L = ?R")
proof (rule set_eqI)
  fix p :: "real \<times> real"
  obtain u c where p: "p = (u, c)" by (cases p)
  let ?n = "length probTable"
  show "p \<in> ?L \<longleftrightarrow> p \<in> ?R"
  proof
    assume "p \<in> ?L"
    then have u: "0 \<le> u" "u < 1" and c: "0 \<le> c" "c < 1"
      and s: "fst (sample probTable aliasTable 1 (u ## c ## g)) = [Some i]"
      by (simp_all add: p drawsReturning_def)
    let ?j = "floorTimes u ?n"
    have j: "?j < ?n" by (rule floorTimes_less[OF u pos])
    have o: "sampleOutcome probTable aliasTable ?j c = Some i"
      using s sample_one[OF u c, of probTable aliasTable g] by simp
    have "real ?j / real ?n \<le> u \<and> u < real (?j + 1) / real ?n"
      using floorTimes_bucket[OF pos u(1), of ?j] by simp
    moreover have "fst (coinInterval probTable aliasTable ?j i) \<le> c \<and>
                   c < snd (coinInterval probTable aliasTable ?j i)"
      using coinInterval_outcome[OF j len _ _ c, of i] rng j o by simp
    ultimately show "p \<in> ?R" using j by (auto simp: p)
  next
    assume "p \<in> ?R"
    then obtain j where j: "j < ?n"
      and uu: "real j / real ?n \<le> u" "u < real (j + 1) / real ?n"
      and cc: "fst (coinInterval probTable aliasTable j i) \<le> c"
              "c < snd (coinInterval probTable aliasTable j i)"
      by (auto simp: p)
    have b: "0 \<le> fst (coinInterval probTable aliasTable j i)"
            "snd (coinInterval probTable aliasTable j i) \<le> 1"
      using coinInterval_bounds[of probTable j aliasTable i] rng j by simp_all
    have c: "0 \<le> c" "c < 1" using cc b by linarith+
    have "0 \<le> real j / real ?n" by simp
    then have u0: "0 \<le> u" using uu(1) by linarith
    have "real (j + 1) / real ?n \<le> 1" using j pos by (simp add: divide_le_eq)
    then have u1: "u < 1" using uu(2) by linarith
    have fj: "floorTimes u ?n = j"
      using floorTimes_bucket[OF pos u0, of j] uu by simp
    have "sampleOutcome probTable aliasTable j c = Some i"
      using coinInterval_outcome[OF j len _ _ c, of i] rng j cc by simp
    then have "fst (sample probTable aliasTable 1 (u ## c ## g)) = [Some i]"
      using sample_one[OF u0 u1 c, of probTable aliasTable g] fj by simp
    then show "p \<in> ?L" using u0 u1 c by (simp add: p drawsReturning_def)
  qed
qed

lemma coinInterval_length:
  "snd (coinInterval probTable aliasTable j i) - fst (coinInterval probTable aliasTable j i)
     = (if j = i then probTable ! j else 0) + (if aliasTable ! j = i then 1 - probTable ! j else 0)"
  by (simp add: coinInterval_def)

lemma sampleProbability_mass:
  assumes i: "i < length probTable"
    and le: "\<forall>j < length probTable. probTable ! j \<le> 1"
  shows "sampleProbability probTable aliasTable i
           = (1 / real (length probTable)) * aliasMass probTable aliasTable i"
proof -
  let ?n = "length probTable"
  let ?f = "\<lambda>j. 1 - probTable ! j"
  let ?P = "\<lambda>j. aliasTable ! j = i \<and> probTable ! j < 1"
  have w: "real (j + 1) / real ?n - real j / real ?n = 1 / real ?n" for j
    by (simp add: add_divide_distrib)
  have own: "(\<Sum>j < ?n. if j = i then probTable ! j else 0) = probTable ! i"
    using i by simp
  have "(\<Sum>j < ?n. if aliasTable ! j = i then ?f j else 0) = (\<Sum>j < ?n. if ?P j then ?f j else 0)"
  proof (rule sum.cong)
    fix j assume "j \<in> {..<?n}"
    then have "probTable ! j \<le> 1" using le by simp
    then show "(if aliasTable ! j = i then ?f j else 0) = (if ?P j then ?f j else 0)"
      by auto
  qed simp
  also have "\<dots> = sum_list (map (\<lambda>j. if ?P j then ?f j else 0) [0..<?n])"
    by (simp add: interv_sum_list_conv_sum_set_nat atLeast0LessThan)
  also have "\<dots> = sum_list (map ?f (filter ?P [0..<?n]))"
    by (simp only: sum_list_map_filter')
  finally have given: "(\<Sum>j < ?n. if aliasTable ! j = i then ?f j else 0)
                         = sum_list (map ?f (filter ?P [0..<?n]))" .
  have "sampleProbability probTable aliasTable i
          = (\<Sum>j < ?n. (1 / real ?n) *
               ((if j = i then probTable ! j else 0) + (if aliasTable ! j = i then ?f j else 0)))"
    unfolding sampleProbability_def by (simp only: w coinInterval_length)
  also have "\<dots> = (1 / real ?n) *
               ((\<Sum>j < ?n. if j = i then probTable ! j else 0) +
                (\<Sum>j < ?n. if aliasTable ! j = i then ?f j else 0))"
    by (simp only: sum_distrib_left[symmetric] sum.distrib)
  also have "\<dots> = (1 / real ?n) * aliasMass probTable aliasTable i"
    by (simp only: own given aliasMass_def)
  finally show ?thesis .
qed

lemma tables_shape:
  assumes "\<forall>p \<in> set probs. 0 \<le> p"
  shows "length (fst (createAliasTables probs)) = length probs"
    and "length (snd (createAliasTables probs)) = length probs"
    and "\<forall>j < length probs.
           0 \<le> fst (createAliasTables probs) ! j \<and> fst (createAliasTables probs) ! j \<le> 1"
proof -
  obtain sc pt al small large where st: "aliasStart probs = (sc, pt, al, small, large)"
    by (metis prod_cases5)
  obtain sc1 pt1 al1 small1 large1
    where run: "aliasLoop sc pt al small large = (sc1, pt1, al1, small1, large1)"
    by (metis prod_cases5)
  have tabs: "createAliasTables probs = (setOnes small1 (setOnes large1 pt1), al1)"
    by (simp add: createAliasTables_loop st run)
  have "aliasInv (length probs) sc pt al small large"
    using aliasInv_start[OF assms] st by simp
  then have "aliasInv (length probs) sc1 pt1 al1 small1 large1"
    using run by (rule aliasInv_loop)
  then have len: "length pt1 = length probs" "length al1 = length probs"
    by (simp_all add: aliasInv_def)
  show "length (fst (createAliasTables probs)) = length probs"
    and "length (snd (createAliasTables probs)) = length probs"
    using len by (simp_all add: tabs)
  show "\<forall>j < length probs.
           0 \<le> fst (createAliasTables probs) ! j \<and> fst (createAliasTables probs) ! j \<le> 1"
    using tables_ranges(1,2)[OF assms st run] by (simp add: tabs)
qed

lemma aliasMass_tables:
  assumes "1 \<le> length probs" and "\<forall>p \<in> set probs. 0 \<le> p" and "sum_list probs = 1"
    and "i < length probs"
  shows "(1 / real (length probs)) *
           aliasMass (fst (createAliasTables probs)) (snd (createAliasTables probs)) i
         = probs ! i"
proof -
  let ?n = "length probs"
  obtain sc pt al small large where st: "aliasStart probs = (sc, pt, al, small, large)"
    by (metis prod_cases5)
  obtain sc1 pt1 al1 small1 large1
    where run: "aliasLoop sc pt al small large = (sc1, pt1, al1, small1, large1)"
    by (metis prod_cases5)
  have tabs: "createAliasTables probs = (setOnes small1 (setOnes large1 pt1), al1)"
    by (simp add: createAliasTables_loop st run)
  have sc: "sc = map (\<lambda>p. p * real ?n) probs"
    using st by (simp add: aliasStart_def Let_def)
  have "fullInv sc ?n sc pt al small large"
    using aliasInv_start[OF assms(2)] massInv_start[OF assms(3)] st
    by (simp add: fullInv_def)
  then have fin: "fullInv sc ?n sc1 pt1 al1 small1 large1" and e: "small1 = [] \<or> large1 = []"
    using fullInv_loop[OF _ run] by blast+
  have s1: "small1 = []" and ones: "\<forall>i \<in> set large1. sc1 ! i = 1"
    using fullInv_end[OF fin e] by blast+
  have "aliasMass (setOnes [] (setOnes large1 pt1)) al1 i = sc ! i"
    using aliasMass_final[OF _ ones assms(4)] fin s1 by simp
  then have "aliasMass (fst (createAliasTables probs)) (snd (createAliasTables probs)) i
               = probs ! i * real ?n"
    using assms(4) by (simp add: tabs s1 sc)
  moreover have "real ?n \<noteq> 0" using assms(1) by auto
  ultimately show ?thesis by simp
qed

text \<open>
  Claim C1. For a weight vector of length \<open>n \<ge> 1\<close> with non-negative entries that sum
  to 1 and every index \<open>i < n\<close>:
  \<^item> \<open>(1/n) * (probTable[i] + \<Sum> (1 - probTable[j]))\<close>, the sum over the \<open>j\<close> with
    \<open>aliasTable[j] = i\<close> and \<open>probTable[j] < 1\<close>, equals \<open>probs[i]\<close>;
  \<^item> the pairs of draws in the unit square on which one call of \<open>sample\<close> on these
    tables returns \<open>i\<close> are exactly the points of \<open>n\<close> rectangles, one for each bucket
    \<open>j\<close>: the strip \<open>[j/n, (j+1)/n)\<close> of first draws by an interval of coins inside
    \<open>[0,1]\<close>;
  \<^item> the total area of these rectangles, which do not overlap, is \<open>probs[i]\<close>: that is
    the probability that the call returns \<open>i\<close>.
\<close>

theorem createAliasTables_exact:
  assumes "1 \<le> length probs" and "\<forall>p \<in> set probs. 0 \<le> p" and "sum_list probs = 1"
    and "i < length probs"
  shows "(1 / real (length probs)) *
           aliasMass (fst (createAliasTables probs)) (snd (createAliasTables probs)) i
           = probs ! i \<and>
         drawsReturning (fst (createAliasTables probs)) (snd (createAliasTables probs)) g i =
           (\<Union>j < length probs.
              {real j / real (length probs) ..< real (j + 1) / real (length probs)} \<times>
              {fst (coinInterval (fst (createAliasTables probs)) (snd (createAliasTables probs)) j i) ..<
               snd (coinInterval (fst (createAliasTables probs)) (snd (createAliasTables probs)) j i)}) \<and>
         (\<forall>j < length probs.
            0 \<le> fst (coinInterval (fst (createAliasTables probs)) (snd (createAliasTables probs)) j i) \<and>
            fst (coinInterval (fst (createAliasTables probs)) (snd (createAliasTables probs)) j i)
              \<le> snd (coinInterval (fst (createAliasTables probs)) (snd (createAliasTables probs)) j i) \<and>
            snd (coinInterval (fst (createAliasTables probs)) (snd (createAliasTables probs)) j i) \<le> 1) \<and>
         sampleProbability (fst (createAliasTables probs)) (snd (createAliasTables probs)) i
           = probs ! i"
proof -
  define pt where "pt = fst (createAliasTables probs)"
  define al where "al = snd (createAliasTables probs)"
  have lp: "length pt = length probs" and la: "length al = length pt"
    and rng: "\<forall>j < length pt. 0 \<le> pt ! j \<and> pt ! j \<le> 1"
    using tables_shape[OF assms(2)] by (simp_all add: pt_def al_def)
  have pos: "0 < length pt" using assms(1) lp by linarith
  have mass: "(1 / real (length probs)) * aliasMass pt al i = probs ! i"
    unfolding pt_def al_def by (rule aliasMass_tables[OF assms])
  have rect: "drawsReturning pt al g i =
           (\<Union>j < length pt.
              {real j / real (length pt) ..< real (j + 1) / real (length pt)} \<times>
              {fst (coinInterval pt al j i) ..< snd (coinInterval pt al j i)})"
    by (rule drawsReturning_rectangles[OF la pos rng])
  have bnd: "\<forall>j < length pt. 0 \<le> fst (coinInterval pt al j i) \<and>
               fst (coinInterval pt al j i) \<le> snd (coinInterval pt al j i) \<and>
               snd (coinInterval pt al j i) \<le> 1"
    using coinInterval_bounds[of pt _ al i] rng by blast
  have "sampleProbability pt al i = (1 / real (length pt)) * aliasMass pt al i"
    by (rule sampleProbability_mass) (use assms(4) lp rng in auto)
  then have prob: "sampleProbability pt al i = probs ! i" using mass lp by simp
  show ?thesis
    using mass rect bnd prob unfolding lp by (simp only: pt_def al_def simp_thms)
qed

text \<open>
  The weights \<open>[1/4, 3/4]\<close> at outcome 1: bucket 0 returns 1 on the coins from 1/2 on,
  bucket 1 on every coin, in all three quarters of the unit square.
\<close>

theorem createAliasTables_exact_witness:
  "createAliasTables [1/4, 3/4] = ([1/2, 1], [1, 0]) \<and>
   (1 / 2) * aliasMass [1/2, 1] [1, 0] 1 = 3 / 4 \<and>
   drawsReturning [1/2, 1] [1, 0] (sconst 0) 1
     = {0 ..< 1/2} \<times> {1/2 ..< 1} \<union> {1/2 ..< 1} \<times> {0 ..< 1} \<and>
   sampleProbability [1/2, 1] [1, 0] 1 = 3 / 4 \<and>
   fst (sample [1/2, 1] [1, 0] 1 (1/4 ## 3/4 ## sconst 0)) = [Some 1] \<and>
   fst (sample [1/2, 1] [1, 0] 1 (1/4 ## 1/4 ## sconst 0)) = [Some 0]"
proof -
  have tabs: "createAliasTables [1/4, 3/4] = ([1/2, 1], [1, 0])"
    by (simp add: createAliasTables_def setOnes_def Let_def aliasLoop.simps)
  have h: "1 \<le> length [1/4, 3/4 :: real]"
    "\<forall>p \<in> set [1/4, 3/4 :: real]. 0 \<le> p"
    "sum_list [1/4, 3/4 :: real] = 1"
    "1 < length [1/4, 3/4 :: real]" by simp_all
  note inst = createAliasTables_exact[OF h, of "sconst 0", unfolded tabs fst_conv snd_conv]
  have m: "(1 / 2) * aliasMass [1/2, 1] [1, 0] 1 = 3 / 4"
    using inst by simp
  have p: "sampleProbability [1/2, 1] [1, 0] 1 = 3 / 4"
    using inst by simp
  have c0: "coinInterval [1/2, 1] [1, 0] 0 1 = (1/2, 1)"
    and c1: "coinInterval [1/2, 1] [1, 0] 1 1 = (0, 1)"
    by (simp_all add: coinInterval_def)
  have two: "{..<length [1/4, 3/4 :: real]} = {0, 1}" by auto
  have "drawsReturning [1/2, 1] [1, 0] (sconst 0) 1 =
          (\<Union>j < length [1/4, 3/4 :: real].
              {real j / real (length [1/4, 3/4 :: real]) ..<
               real (j + 1) / real (length [1/4, 3/4 :: real])} \<times>
              {fst (coinInterval [1/2, 1] [1, 0] j 1) ..< snd (coinInterval [1/2, 1] [1, 0] j 1)})"
    using inst by blast
  also have "\<dots> = {0 ..< 1/2} \<times> {1/2 ..< 1} \<union> {1/2 ..< 1} \<times> {0 ..< 1}"
    unfolding two using c0 c1 by simp
  finally have d: "drawsReturning [1/2, 1] [1, 0] (sconst 0) 1
     = {0 ..< 1/2} \<times> {1/2 ..< 1} \<union> {1/2 ..< 1} \<times> {0 ..< 1}" .
  have s1: "fst (sample [1/2, 1] [1, 0] 1 (1/4 ## 3/4 ## sconst 0)) = [Some 1]"
    and s0: "fst (sample [1/2, 1] [1, 0] 1 (1/4 ## 1/4 ## sconst 0)) = [Some 0]"
    by (simp_all add: random_def frac_def floorTimes_def sampleOutcome_def Let_def)
  show ?thesis using tabs m d p s1 s0 by (simp only: simp_thms)
qed

text \<open>
  Claim C8. On a weight vector with non-negative entries \<open>normalizeProbs\<close> never
  fails. When the sum of the weights is at most 0 (so for the all-zero vector) it
  returns the uniform distribution, \<open>1/n\<close> in each of the \<open>n\<close> places, and raises its
  warning; when the sum is positive it returns the entries divided by the sum, without
  a warning.
\<close>

theorem normalizeProbs_nonneg:
  assumes "\<forall>p \<in> set probs. 0 \<le> p"
  shows "(sum_list probs \<le> 0 \<longrightarrow>
            normalizeProbs probs = (True, replicate (length probs) (1 / real (length probs)))) \<and>
         (0 < sum_list probs \<longrightarrow>
            normalizeProbs probs = (False, map (\<lambda>p. p / sum_list probs) probs))"
proof -
  have "0 \<le> sum_list probs" using assms by (simp add: sum_list_nonneg)
  then have z: "sum_list probs \<le> 0 \<longleftrightarrow> sum_list probs = 0" by linarith
  show ?thesis
    unfolding z
    by (simp add: normalizeProbs_def foldl_add_sum_list map_replicate_const)
qed

text \<open>The all-zero vector of length 2, and the weights \<open>[1, 3]\<close>.\<close>

theorem normalizeProbs_nonneg_witness:
  "sum_list [0, 0 :: real] \<le> 0 \<and> normalizeProbs [0, 0] = (True, [1/2, 1/2]) \<and>
   0 < sum_list [1, 3 :: real] \<and> normalizeProbs [1, 3] = (False, [1/4, 3/4])"
proof -
  have h0: "\<forall>p \<in> set [0, 0 :: real]. 0 \<le> p" and h1: "\<forall>p \<in> set [1, 3 :: real]. 0 \<le> p"
    by simp_all
  show ?thesis
    using normalizeProbs_nonneg[OF h0] normalizeProbs_nonneg[OF h1]
    by (simp add: numeral_2_eq_2)
qed

section \<open>Properties of the travelling salesman engine\<close>

subsection \<open>The cost of a path\<close>

lemma distance_nonneg: "0 \<le> distance a b"
  by (simp add: distance_def Let_def)

lemma distance_sym: "distance a b = distance b a"
proof -
  have "(x a - x b) * (x a - x b) = (x b - x a) * (x b - x a)"
    and "(y a - y b) * (y a - y b) = (y b - y a) * (y b - y a)"
    by (simp_all add: algebra_simps)
  then show ?thesis by (simp add: distance_def Let_def)
qed

lemma pathLoop_sum:
  assumes "\<forall>k < length path. path ! k < length cs"
  shows "pathLoop cs path i t =
           Inr (t + sum_list (map (\<lambda>k. distance (cs ! (path ! k)) (cs ! (path ! (k + 1))))
                               [i..<length path - 1]))"
  using assms
proof (induction cs path i t rule: pathLoop.induct)
  case (1 cs path i t)
  show ?case
  proof (cases "i < length path - 1")
    case True
    then have r: "path ! i < length cs" "path ! (i + 1) < length cs"
      using "1.prems" by auto
    then have d: "distanceAt cs (path ! i) (path ! (i + 1))
                    = Inr (distance (cs ! (path ! i)) (cs ! (path ! (i + 1))))"
      by (simp add: distanceAt_def)
    have up: "[i..<length path - 1] = i # [i + 1..<length path - 1]"
      using True by (simp add: upt_conv_Cons)
    have "pathLoop cs path i t
            = pathLoop cs path (i + 1) (t + distance (cs ! (path ! i)) (cs ! (path ! (i + 1))))"
      using True d by (subst pathLoop.simps) simp
    also have "\<dots> = Inr (t + distance (cs ! (path ! i)) (cs ! (path ! (i + 1))) +
                 sum_list (map (\<lambda>k. distance (cs ! (path ! k)) (cs ! (path ! (k + 1))))
                               [i + 1..<length path - 1]))"
      by (rule "1.IH"[OF True d "1.prems"])
    also have "\<dots> = Inr (t + sum_list (map (\<lambda>k. distance (cs ! (path ! k)) (cs ! (path ! (k + 1))))
                               [i..<length path - 1]))"
      by (simp only: up list.map sum_list.Cons add.assoc)
    finally show ?thesis .
  next
    case False
    then show ?thesis by (subst pathLoop.simps) simp
  qed
qed

lemma calculatePathDistance_edges:
  assumes "2 \<le> length cs" "path \<noteq> []" "\<forall>k \<in> set path. k < length cs"
  shows "calculatePathDistance cs path = Inr (sum_list (tourEdges cs path))"
proof -
  have r: "\<forall>k < length path. path ! k < length cs" using assms(3) by simp
  have p0: "path ! 0 < length cs" "path ! (length path - 1) < length cs"
    using r assms(2) by auto
  have c0: "0 < length cs" using assms(1) by linarith
  show ?thesis
    using assms(1,2) p0 c0
    by (simp add: calculatePathDistance_def distanceAt_def pathLoop_sum[OF r] tourEdges_def)
qed

lemma calculatePathDistance_total:
  assumes "\<forall>k \<in> set path. k < length cs"
  shows "\<exists>d. calculatePathDistance cs path = Inr d"
proof (cases "length cs < 2 \<or> length path = 0")
  case True
  then show ?thesis by (auto simp: calculatePathDistance_def)
next
  case False
  then show ?thesis using calculatePathDistance_edges[of cs path] assms by auto
qed


lemma walkLength_snoc2: "walkLength (zs @ [a, b]) = walkLength (zs @ [a]) + distance a b"
  by (induction zs rule: walkLength.induct) simp_all

lemma walkLength_Cons: "zs \<noteq> [] \<Longrightarrow> walkLength (a # zs) = distance a (hd zs) + walkLength zs"
  by (cases zs) simp_all

lemma walkLength_snoc: "zs \<noteq> [] \<Longrightarrow> walkLength (zs @ [b]) = walkLength zs + distance (last zs) b"
proof (induction zs rule: rev_induct)
  case Nil
  then show ?case by simp
next
  case (snoc a zs)
  then show ?case using walkLength_snoc2[of zs a b] by simp
qed

lemma walkLength_nth:
  "walkLength zs = sum_list (map (\<lambda>k. distance (zs ! k) (zs ! (k + 1))) [0..<length zs - 1])"
proof (induction zs rule: walkLength.induct)
  case (1 a b rest)
  have "[0..<length (a # b # rest) - 1] = 0 # map Suc [0..<length (b # rest) - 1]"
    by (simp add: upt_conv_Cons map_Suc_upt del: upt_Suc)
  then show ?case using 1 by (simp add: comp_def del: upt_Suc)
qed simp_all

lemma walkLength_map_nth:
  "walkLength (map f path)
     = sum_list (map (\<lambda>k. distance (f (path ! k)) (f (path ! (k + 1)))) [0..<length path - 1])"
proof -
  have "map (\<lambda>k. distance (map f path ! k) (map f path ! (k + 1))) [0..<length path - 1]
        = map (\<lambda>k. distance (f (path ! k)) (f (path ! (k + 1)))) [0..<length path - 1]"
    by (rule map_cong) auto
  then show ?thesis by (simp only: walkLength_nth[of "map f path"] length_map)
qed

lemma tourEdges_walk:
  assumes "path \<noteq> []"
  shows "sum_list (tourEdges cs path) = walkLength (cs ! 0 # map (\<lambda>k. cs ! k) path @ [cs ! 0])"
proof -
  let ?m = "map (\<lambda>k. cs ! k) path"
  have ne: "?m \<noteq> []" using assms by simp
  have "walkLength (cs ! 0 # ?m @ [cs ! 0])
          = distance (cs ! 0) (hd (?m @ [cs ! 0])) + walkLength (?m @ [cs ! 0])"
    by (rule walkLength_Cons) simp
  also have "hd (?m @ [cs ! 0]) = cs ! (path ! 0)"
    using assms by (cases path) simp_all
  also have "walkLength (?m @ [cs ! 0]) = walkLength ?m + distance (last ?m) (cs ! 0)"
    by (rule walkLength_snoc[OF ne])
  also have "last ?m = cs ! (path ! (length path - 1))"
    using assms by (simp add: last_map last_conv_nth)
  finally show ?thesis
    by (simp add: tourEdges_def walkLength_map_nth)
qed

text \<open>The closed walk that starts and ends at the head of the list.\<close>

lemma closed_rotate1:
  "walkLength (rotate1 zs @ [hd (rotate1 zs)]) = walkLength (zs @ [hd zs])"
proof (cases zs)
  case Nil
  then show ?thesis by simp
next
  case (Cons a rest)
  show ?thesis
  proof (cases rest)
    case Nil
    then show ?thesis using Cons by simp
  next
    case (Cons b rest')
    have "walkLength (rotate1 zs @ [hd (rotate1 zs)]) = walkLength ((b # rest') @ [a, b])"
      using \<open>zs = a # rest\<close> Cons by simp
    also have "\<dots> = walkLength ((b # rest') @ [a]) + distance a b"
      by (rule walkLength_snoc2)
    also have "\<dots> = walkLength (zs @ [hd zs])"
      using \<open>zs = a # rest\<close> Cons by simp
    finally show ?thesis .
  qed
qed

lemma closed_rotate:
  "walkLength (rotate m zs @ [hd (rotate m zs)]) = walkLength (zs @ [hd zs])"
  by (induction m) (simp_all add: closed_rotate1)

lemma nth_head_tail:
  assumes "zs \<noteq> []"
  shows "zs ! 0 # map (\<lambda>k. zs ! k) [1..<length zs] = zs"
proof -
  have "[0..<length zs] = 0 # [1..<length zs]"
    using assms by (simp add: upt_conv_Cons del: upt_Suc)
  then have "map (\<lambda>k. zs ! k) [0..<length zs] = zs ! 0 # map (\<lambda>k. zs ! k) [1..<length zs]"
    by (simp only: list.map)
  then show ?thesis by (simp only: map_nth)
qed

lemma closed_path_cost:
  assumes "2 \<le> length zs"
  shows "calculatePathDistance zs [1..<length zs] = Inr (walkLength (zs @ [hd zs]))"
proof -
  have "1 < length zs" using assms by linarith
  then have ne: "[1..<length zs] \<noteq> []" and nz: "zs \<noteq> []" by auto
  have "calculatePathDistance zs [1..<length zs] = Inr (sum_list (tourEdges zs [1..<length zs]))"
    by (rule calculatePathDistance_edges[OF assms ne]) simp
  also have "sum_list (tourEdges zs [1..<length zs])
               = walkLength (zs ! 0 # map (\<lambda>k. zs ! k) [1..<length zs] @ [zs ! 0])"
    by (rule tourEdges_walk[OF ne])
  also have "zs ! 0 # map (\<lambda>k. zs ! k) [1..<length zs] @ [zs ! 0]
               = (zs ! 0 # map (\<lambda>k. zs ! k) [1..<length zs]) @ [zs ! 0]"
    by simp
  also have "zs ! 0 # map (\<lambda>k. zs ! k) [1..<length zs] = zs"
    by (rule nth_head_tail[OF nz])
  also have "zs ! 0 = hd zs" using nz by (simp add: hd_conv_nth)
  finally show ?thesis .
qed


subsection \<open>Draws, the shuffle and the step\<close>

lemma shuffleLoop_perm:
  assumes "k < length array \<or> k = 0"
  shows "length (fst (shuffleLoop k array g)) = length array \<and>
         set (fst (shuffleLoop k array g)) = set array"
  using assms
proof (induction k arbitrary: array g)
  case 0
  then show ?case by simp
next
  case (Suc k)
  then have k: "Suc k < length array" by simp
  let ?j = "floorTimes (fst (random g)) (Suc k + 1)"
  have "?j < Suc k + 1" using floorTimes_less[of "fst (random g)" "Suc k + 1"] random_range[of g] by simp
  then have j: "?j < length array" using k by simp
  let ?a = "array[Suc k := array ! ?j, ?j := array ! Suc k]"
  have a: "length ?a = length array" "set ?a = set array"
    using k j by (simp_all add: set_swap)
  have "k < length ?a \<or> k = 0" using k by simp
  from Suc.IH[OF this, of "snd (random g)"] a
  show ?case by (simp add: Let_def split_beta)
qed

lemma shuffleArray_perm:
  "length (fst (shuffleArray array g)) = length array \<and> set (fst (shuffleArray array g)) = set array"
proof -
  have "length array - 1 < length array \<or> length array - 1 = 0" by (cases array) auto
  then show ?thesis unfolding shuffleArray_def by (rule shuffleLoop_perm)
qed

lemma initializeSimulation_started:
  assumes "3 \<le> length cs"
  shows "\<exists>path d g1.
           initializeSimulation cs params g =
             Inr (\<lparr>cities = cs, currentPath = path, bestPath = path, distances = [d],
                   currentDistance = d, bestDistance = d,
                   temperature = initialTemperature params, iteration = 0,
                   totalIterations = totalIterations_p params, isRunning = True,
                   animationSpeed = 1\<rparr>, g1) \<and>
           length path = length cs - 1 \<and> (\<forall>k \<in> set path. k < length cs)"
proof -
  let ?ix = "map (\<lambda>i. i + 1) [0..<length cs - 1]"
  obtain path g1 where sh: "shuffleArray ?ix g = (path, g1)" by (cases "shuffleArray ?ix g")
  have p: "length path = length cs - 1" "set path = set ?ix"
    using shuffleArray_perm[of ?ix g] sh by simp_all
  have inr: "\<forall>k \<in> set path. k < length cs" using p(2) assms by auto
  obtain d where d: "calculatePathDistance cs path = Inr d"
    using calculatePathDistance_total[OF inr] by blast
  show ?thesis using assms sh d p(1) inr
    by (simp add: initializeSimulation_def)
qed

lemma keepCurrent_result:
  assumes "\<forall>k \<in> set (currentPath state). k < length (cities state)"
  shows "\<exists>d. keepCurrent state params g =
               Inr (state\<lparr>distances := distances state @ [d],
                          temperature := temperature state * coolingRate params,
                          iteration := iteration state + 1\<rparr>, g)"
  using calculatePathDistance_total[OF assms] by (auto simp: keepCurrent_def)

lemma simulationStep_running:
  assumes c3: "3 \<le> length (cities state)"
    and it: "iteration state < totalIterations state"
    and wf: "wellFormed state"
  shows "\<exists>state1 g1.
           simulationStep state params g = Inr (state1, g1) \<and>
           cities state1 = cities state \<and> totalIterations state1 = totalIterations state \<and>
           iteration state1 = iteration state + 1 \<and>
           temperature state1 = temperature state * coolingRate params \<and>
           wellFormed state1 \<and> bestDistance state1 \<le> bestDistance state"
proof -
  let ?n = "length (cities state) - 1"
  let ?g1 = "snd (random g)" 
  let ?g2 = "snd (random ?g1)"
  let ?i = "floorTimes (fst (random g)) ?n"
  let ?j = "floorTimes (fst (random ?g1)) ?n"
  from wf have len: "length (currentPath state) = ?n"
    and inr: "\<forall>k \<in> set (currentPath state). k < length (cities state)"
    and lb: "length (bestPath state) = ?n"
    by (simp_all add: wellFormed_def)
  have npos: "0 < ?n" using c3 by simp
  have ij: "?i < ?n" "?j < ?n"
    using floorTimes_less[OF _ _ npos] random_range by simp_all
  have keep: "\<exists>state1. keepCurrent state params h = Inr (state1, h) \<and>
           cities state1 = cities state \<and> totalIterations state1 = totalIterations state \<and>
           iteration state1 = iteration state + 1 \<and>
           temperature state1 = temperature state * coolingRate params \<and>
           wellFormed state1 \<and> bestDistance state1 \<le> bestDistance state" for h
  proof -
    obtain d where "keepCurrent state params h =
               Inr (state\<lparr>distances := distances state @ [d],
                          temperature := temperature state * coolingRate params,
                          iteration := iteration state + 1\<rparr>, h)"
      using keepCurrent_result[OF inr] by blast
    then show ?thesis using wf by (simp add: wellFormed_def)
  qed
  show ?thesis
  proof (cases "?i = ?j")
    case True
    then have "simulationStep state params g = keepCurrent state params ?g2"
      using c3 it by (simp add: simulationStep_def Let_def split_beta)
    then show ?thesis using keep[of ?g2] by auto
  next
    case False
    let ?np = "(currentPath state)[?i := currentPath state ! ?j, ?j := currentPath state ! ?i]"
    have np: "length ?np = ?n" "set ?np = set (currentPath state)"
      using ij len by (simp_all add: set_swap)
    obtain dc where dc: "calculatePathDistance (cities state) (currentPath state) = Inr dc"
      using calculatePathDistance_total[OF inr] by blast
    have "\<forall>k \<in> set ?np. k < length (cities state)" using inr np(2) by simp
    then obtain dn where dn: "calculatePathDistance (cities state) ?np = Inr dn"
      using calculatePathDistance_total by blast
    let ?acc = "if dn < dc then (True, ?g2)
                else case random ?g2 of (u3, g3) \<Rightarrow>
                  (temperature state \<noteq> 0 \<and> u3 < exp ((dc - dn) / temperature state), g3)"
    have step: "simulationStep state params g =
        (if fst ?acc then
           Inr (state\<lparr>currentPath := ?np,
                       bestPath := (if length (bestPath state) = 0 \<or> dn < bestDistance state
                                    then ?np else bestPath state),
                       distances := distances state @ [dn],
                       currentDistance := dn,
                       bestDistance := (if length (bestPath state) = 0 \<or> dn < bestDistance state
                                    then dn else bestDistance state),
                       temperature := temperature state * coolingRate params,
                       iteration := iteration state + 1\<rparr>, snd ?acc)
         else keepCurrent state params (snd ?acc))"
      using c3 it False ij len dc dn
      by (simp add: simulationStep_def Let_def split_beta)
    show ?thesis
    proof (cases "fst ?acc")
      case True
      have b: "length (bestPath state) \<noteq> 0" using lb npos by simp
      show ?thesis
        unfolding step using True wf np b inr
        by (simp add: wellFormed_def)
    next
      case False
      then show ?thesis unfolding step using keep[of "snd ?acc"] by auto
    qed
  qed
qed

lemma simulationStep_stopped:
  assumes "length (cities state) < 3 \<or> totalIterations state \<le> iteration state"
  shows "simulationStep state params g = Inr (state\<lparr>isRunning := False\<rparr>, g)"
  using assms by (auto simp: simulationStep_def)

lemma reachable_invariant:
  "reachable cs params state \<Longrightarrow>
     cities state = cs \<and> 3 \<le> length cs \<and> wellFormed state"
proof (induction rule: reachable.induct)
  case (init cs params g state g1)
  then show ?case
    using initializeSimulation_started[of cs params g] by (auto simp: wellFormed_def)
next
  case (step cs params state g state1 g1)
  show ?case
  proof (cases "iteration state < totalIterations state")
    case True
    then show ?thesis
      using simulationStep_running[of state params g] step by auto
  next
    case False
    then show ?thesis
      using simulationStep_stopped[of state params g] step by (auto simp: wellFormed_def)
  qed
next
  case (page cs params state running speed)
  then show ?case by (auto simp: wellFormed_def)
qed

lemma simulationStep_best:
  assumes "3 \<le> length (cities state)" "wellFormed state"
    and "simulationStep state params g = Inr (state1, g1)"
  shows "bestDistance state1 \<le> bestDistance state"
proof (cases "iteration state < totalIterations state")
  case True
  then show ?thesis using simulationStep_running[of state params g] assms by auto
next
  case False
  then show ?thesis using simulationStep_stopped[of state params g] assms by auto
qed

lemma stepTimes_temperature:
  assumes "3 \<le> length (cities state)" "wellFormed state"
    and "iteration state + t \<le> totalIterations state"
  shows "\<exists>state1 g1. stepTimes t state params g = Inr (state1, g1) \<and>
           temperature state1 = temperature state * coolingRate params ^ t \<and>
           iteration state1 = iteration state + t"
  using assms
proof (induction t arbitrary: state g)
  case 0
  then show ?case by simp
next
  case (Suc t)
  then have "iteration state < totalIterations state" by simp
  from simulationStep_running[OF Suc.prems(1) this Suc.prems(2), of params g]
  obtain s1 h1 where s1: "simulationStep state params g = Inr (s1, h1)"
    "cities s1 = cities state" "totalIterations s1 = totalIterations state"
    "iteration s1 = iteration state + 1"
    "temperature s1 = temperature state * coolingRate params" "wellFormed s1"
    by blast
  have "3 \<le> length (cities s1)" "iteration s1 + t \<le> totalIterations s1"
    using s1 Suc.prems by simp_all
  from Suc.IH[OF this(1) s1(6) this(2), of h1]
  obtain s2 h2 where "stepTimes t s1 params h1 = Inr (s2, h2)"
    "temperature s2 = temperature s1 * coolingRate params ^ t"
    "iteration s2 = iteration s1 + t" by blast
  then show ?case using s1 by (simp add: mult.assoc)
qed


subsection \<open>The worked example\<close>

lemma triangle_cost: "calculatePathDistance triangle [2, 1] = Inr 12"
  by (simp add: calculatePathDistance_def distanceAt_def distance_def triangle_def
      pathLoop.simps Let_def)

lemma triangle_init:
  "initializeSimulation triangle tspParams (sconst 0) = Inr (triangleStart, sconst 0)"
proof -
  have "shuffleArray (map (\<lambda>i. i + 1) [0..<length triangle - 1]) (sconst 0) = ([2, 1], sconst 0)"
    by (simp add: shuffleArray_def triangle_def random_sconst floorTimes_def Let_def upt_rec
        numeral_2_eq_2)
  then show ?thesis
    using triangle_cost
    by (simp add: initializeSimulation_def triangleStart_def tspParams_def) (simp add: triangle_def)
qed

lemma triangle_step:
  "simulationStep triangleStart tspParams (sconst 0) =
     Inr (triangleStart\<lparr>distances := [12, 12], temperature := 990, iteration := 1\<rparr>, sconst 0)"
  using triangle_cost
  by (simp add: simulationStep_def keepCurrent_def triangleStart_def tspParams_def
      random_sconst floorTimes_def Let_def) (simp add: triangle_def)

text \<open>
  Rotating the array \<open>path\<close> while the start stays city 0 is not a rotation of the
  closed tour: it names another tour, here the one that crosses the rectangle twice.
\<close>

lemma rotated_path_is_another_tour:
  "calculatePathDistance rectangle [1, 2, 3] = Inr 14 \<and>
   calculatePathDistance rectangle (rotate 1 [1, 2, 3]) = Inr 16"
  by (simp add: calculatePathDistance_def distanceAt_def distance_def rectangle_def
      pathLoop.simps Let_def)

subsection \<open>The claims\<close>

text \<open>
  Claim C4. For \<open>k \<ge> 2\<close> cities and a path that is a permutation of the indices
  \<open>1, ..., k - 1\<close>, \<open>calculatePathDistance\<close> returns the sum of the \<open>k\<close> edges of
  \<open>tourEdges\<close> (start to \<open>path[0]\<close>, the \<open>k - 2\<close> edges along the path, \<open>path[last]\<close>
  back to the start), none of them negative. The cost does not change under a cyclic
  rotation of the closed tour \<open>0, path[0], ..., path[last]\<close>: listing the cities in the
  order of the rotated tour and walking them in that order, from its first city round
  to its first city, costs the same.
\<close>

theorem calculatePathDistance_tour:
  assumes "2 \<le> length cs" and "distinct path" and "set path = {1..<length cs}"
  shows "calculatePathDistance cs path = Inr (sum_list (tourEdges cs path)) \<and>
         length (tourEdges cs path) = length cs \<and>
         (\<forall>e \<in> set (tourEdges cs path). 0 \<le> e) \<and>
         (\<forall>m. calculatePathDistance (map (\<lambda>k. cs ! k) (rotate m (0 # path))) [1..<length cs]
                = calculatePathDistance cs path)"
proof -
  let ?n = "length cs"
  have len: "length path = ?n - 1"
    using distinct_card[OF assms(2)] assms(3) by simp
  have ne: "path \<noteq> []" using len assms(1) by auto
  have inr: "\<forall>k \<in> set path. k < ?n" using assms(3) by auto
  have cost: "calculatePathDistance cs path = Inr (sum_list (tourEdges cs path))"
    by (rule calculatePathDistance_edges[OF assms(1) ne inr])
  have cnt: "length (tourEdges cs path) = ?n"
    using len assms(1) by (simp add: tourEdges_def)
  have nonneg: "\<forall>e \<in> set (tourEdges cs path). 0 \<le> e"
    by (auto simp: tourEdges_def distance_nonneg)
  have rot: "calculatePathDistance (map (\<lambda>k. cs ! k) (rotate m (0 # path))) [1..<?n]
               = calculatePathDistance cs path" for m
  proof -
    define zs where "zs = map (\<lambda>k. cs ! k) (0 # path)"
    define ws where "ws = map (\<lambda>k. cs ! k) (rotate m (0 # path))"
    have ws: "ws = rotate m zs" by (simp only: ws_def zs_def rotate_map)
    have l: "length ws = ?n" using len assms(1) by (simp add: ws_def)
    have "calculatePathDistance ws [1..<length ws] = Inr (walkLength (ws @ [hd ws]))"
      by (rule closed_path_cost) (use l assms(1) in simp)
    also have "\<dots> = Inr (walkLength (zs @ [hd zs]))"
      by (simp only: ws closed_rotate)
    also have "zs @ [hd zs] = cs ! 0 # map (\<lambda>k. cs ! k) path @ [cs ! 0]"
      by (simp add: zs_def)
    also have "walkLength \<dots> = sum_list (tourEdges cs path)"
      by (rule tourEdges_walk[OF ne, symmetric])
    finally have "calculatePathDistance ws [1..<length ws] = calculatePathDistance cs path"
      using cost by (simp only:)
    then show ?thesis by (simp only: l) (simp only: ws_def)
  qed
  show ?thesis using cost cnt nonneg rot by blast
qed


text \<open>The triangle, path \<open>[2, 1]\<close>; the tour rotated by one starts at city 2.\<close>

theorem calculatePathDistance_tour_witness:
  "calculatePathDistance triangle [2, 1] = Inr 12 \<and>
   tourEdges triangle [2, 1] = [5, 4, 3] \<and>
   calculatePathDistance (map (\<lambda>k. triangle ! k) (rotate 1 [0, 2, 1])) [1..<3] = Inr 12"
proof -
  have h: "2 \<le> length triangle" "distinct [2, 1 :: nat]" "set [2, 1] = {1..<length triangle}"
    by (auto simp: triangle_def)
  have e: "tourEdges triangle [2, 1] = [5, 4, 3]"
    by (simp add: tourEdges_def triangle_def distance_def)
  have l: "length triangle = 3" by (simp add: triangle_def)
  have r: "calculatePathDistance (map (\<lambda>k. triangle ! k) (rotate 1 (0 # [2, 1]))) [1..<length triangle]
             = calculatePathDistance triangle [2, 1]"
    using calculatePathDistance_tour[OF h] by blast
  have c: "calculatePathDistance triangle [2, 1] = Inr (sum_list (tourEdges triangle [2, 1]))"
    using calculatePathDistance_tour[OF h] by blast
  show ?thesis using r c e l by simp
qed

text \<open>
  Claim C5, as amended. With fewer than three cities \<open>initializeSimulation\<close> returns
  the blank state of \<open>getInitialState\<close>, which is no started run, and draws nothing; it
  neither throws nor returns an error. A step on a state with fewer than three cities
  returns that state with \<open>isRunning\<close> set to false and nothing else changed, and draws
  nothing.
\<close>

theorem initializeSimulation_few_cities:
  "(length cs < 3 \<longrightarrow> initializeSimulation cs params g = Inr (getInitialState, g)) \<and>
   (length (cities state) < 3 \<longrightarrow>
      simulationStep state params g = Inr (state\<lparr>isRunning := False\<rparr>, g))"
  by (simp add: initializeSimulation_def simulationStep_def)

text \<open>Two cities of the triangle; a step on the blank state.\<close>

theorem initializeSimulation_few_cities_witness:
  "length (take 2 triangle) < 3 \<and>
   initializeSimulation (take 2 triangle) tspParams (sconst 0) = Inr (getInitialState, sconst 0) \<and>
   length (cities getInitialState) < 3 \<and>
   simulationStep getInitialState tspParams (sconst 0) = Inr (getInitialState, sconst 0)"
proof -
  have a: "length (take 2 triangle) < 3" by (simp add: triangle_def)
  have b: "length (cities getInitialState) < 3" by (simp add: getInitialState_def)
  have c: "getInitialState\<lparr>isRunning := False\<rparr> = getInitialState" by (simp add: getInitialState_def)
  show ?thesis
    using initializeSimulation_few_cities[of "take 2 triangle" tspParams "sconst 0" getInitialState] a b c
    by simp
qed


text \<open>
  Claim C5 as stated fails: for two cities the result of \<open>initializeSimulation\<close> is a
  state, the blank one, which has dropped the cities, and not an error; and a step on a
  state with fewer than three cities whose \<open>isRunning\<close> is true changes that field.
\<close>

theorem initializeSimulation_no_error:
  "initializeSimulation (take 2 triangle) tspParams (sconst 0) = Inr (getInitialState, sconst 0) \<and>
   cities getInitialState = [] \<and>
   simulationStep (getInitialState\<lparr>isRunning := True\<rparr>) tspParams (sconst 0)
     = Inr (getInitialState, sconst 0) \<and>
   getInitialState \<noteq> getInitialState\<lparr>isRunning := True\<rparr>"
  by (simp add: initializeSimulation_def simulationStep_def triangle_def getInitialState_def)


text \<open>
  Claim C7. \<open>calculateTemperature\<close> under the geometric schedule is \<open>T0 * rate ^ t\<close>.
  In the travelling salesman engine a run is started on at least three cities; for
  every such run and \<open>t\<close> up to \<open>totalIterations\<close>, initialization followed by \<open>t\<close>
  steps does not throw, whatever the draws, and ends in a state at iteration \<open>t\<close> whose
  temperature is \<open>initialTemperature * coolingRate ^ t\<close>.
\<close>

theorem geometric_temperature:
  "calculateTemperature t T0 rate maxIter Geometric = T0 * rate ^ t \<and>
   (3 \<le> length cs \<and> t \<le> totalIterations_p params \<longrightarrow>
      (\<exists>state0 g0 state1 g1.
         initializeSimulation cs params g = Inr (state0, g0) \<and>
         stepTimes t state0 params g0 = Inr (state1, g1) \<and>
         iteration state1 = t \<and>
         temperature state1 = initialTemperature params * coolingRate params ^ t))"
proof (intro conjI impI)
  show "calculateTemperature t T0 rate maxIter Geometric = T0 * rate ^ t"
    by (simp add: calculateTemperature_def)
next
  assume a: "3 \<le> length cs \<and> t \<le> totalIterations_p params"
  then obtain path d g0 where
    i: "initializeSimulation cs params g =
             Inr (\<lparr>cities = cs, currentPath = path, bestPath = path, distances = [d],
                   currentDistance = d, bestDistance = d,
                   temperature = initialTemperature params, iteration = 0,
                   totalIterations = totalIterations_p params, isRunning = True,
                   animationSpeed = 1\<rparr>, g0)"
    and p: "length path = length cs - 1" "\<forall>k \<in> set path. k < length cs"
    using initializeSimulation_started[of cs params g] by blast
  let ?s0 = "\<lparr>cities = cs, currentPath = path, bestPath = path, distances = [d],
                   currentDistance = d, bestDistance = d,
                   temperature = initialTemperature params, iteration = 0,
                   totalIterations = totalIterations_p params, isRunning = True,
                   animationSpeed = 1\<rparr>"
  have "3 \<le> length (cities ?s0)" "wellFormed ?s0" "iteration ?s0 + t \<le> totalIterations ?s0"
    using a p by (simp_all add: wellFormed_def)
  from stepTimes_temperature[OF this, of params g0] i
  show "\<exists>state0 g0 state1 g1.
         initializeSimulation cs params g = Inr (state0, g0) \<and>
         stepTimes t state0 params g0 = Inr (state1, g1) \<and>
         iteration state1 = t \<and>
         temperature state1 = initialTemperature params * coolingRate params ^ t"
    by auto
qed

text \<open>One step of the triangle, from 1000 to 990.\<close>

theorem geometric_temperature_witness:
  "calculateTemperature 1 1000 (99 / 100) 3000 Geometric = 990 \<and>
   3 \<le> length triangle \<and> 1 \<le> totalIterations_p tspParams \<and>
   initializeSimulation triangle tspParams (sconst 0) = Inr (triangleStart, sconst 0) \<and>
   stepTimes 1 triangleStart tspParams (sconst 0) =
     Inr (triangleStart\<lparr>distances := [12, 12], temperature := 990, iteration := 1\<rparr>, sconst 0) \<and>
   initialTemperature tspParams * coolingRate tspParams ^ 1 = 990"
proof -
  have h: "3 \<le> length triangle \<and> 1 \<le> totalIterations_p tspParams"
    by (simp add: triangle_def tspParams_def)
  from geometric_temperature[of 1 1000 "99 / 100" 3000 triangle tspParams "sconst 0"] h
  have t: "calculateTemperature 1 1000 (99 / 100) 3000 Geometric = 1000 * (99 / 100) ^ 1"
    and "\<exists>state0 g0 state1 g1.
         initializeSimulation triangle tspParams (sconst 0) = Inr (state0, g0) \<and>
         stepTimes 1 state0 tspParams g0 = Inr (state1, g1) \<and>
         iteration state1 = 1 \<and>
         temperature state1 = initialTemperature tspParams * coolingRate tspParams ^ 1"
    by blast+
  then obtain state1 g1 where
    s: "stepTimes 1 triangleStart tspParams (sconst 0) = Inr (state1, g1)"
      "temperature state1 = initialTemperature tspParams * coolingRate tspParams ^ 1"
    using triangle_init by auto
  have e: "stepTimes 1 triangleStart tspParams (sconst 0) =
     Inr (triangleStart\<lparr>distances := [12, 12], temperature := 990, iteration := 1\<rparr>, sconst 0)"
    using triangle_step by simp
  show ?thesis using h t s e triangle_init by (simp add: tspParams_def)
qed

text \<open>
  Claim C9. For a state with at least three cities, with \<open>iteration < totalIterations\<close>
  and a current path whose entries are indices of cities, a step whose two drawn
  positions are equal returns: the cost of the current path exists, and the state
  returned is the input with that cost appended to \<open>distances\<close>, the temperature
  cooled once and \<open>iteration\<close> one higher; \<open>currentPath\<close>, \<open>bestPath\<close> and all other
  fields are those of the input. Two draws are consumed.
\<close>

theorem simulationStep_equal_positions:
  assumes "3 \<le> length (cities state)"
    and "iteration state < totalIterations state"
    and "\<forall>k \<in> set (currentPath state). k < length (cities state)"
    and "floorTimes (fst (random g)) (length (cities state) - 1)
           = floorTimes (fst (random (snd (random g)))) (length (cities state) - 1)"
  shows "\<exists>d. calculatePathDistance (cities state) (currentPath state) = Inr d \<and>
             simulationStep state params g =
               Inr (state\<lparr>distances := distances state @ [d],
                          temperature := temperature state * coolingRate params,
                          iteration := iteration state + 1\<rparr>,
                    snd (random (snd (random g))))"
proof -
  obtain d where d: "calculatePathDistance (cities state) (currentPath state) = Inr d"
    using calculatePathDistance_total[OF assms(3)] by blast
  have "simulationStep state params g = keepCurrent state params (snd (random (snd (random g))))"
    using assms(1,2,4) by (simp add: simulationStep_def Let_def split_beta)
  then show ?thesis using d by (simp add: keepCurrent_def)
qed


text \<open>The triangle with every draw 0: both positions are 0.\<close>

theorem simulationStep_equal_positions_witness:
  "simulationStep triangleStart tspParams (sconst 0) =
     Inr (triangleStart\<lparr>distances := [12, 12], temperature := 990, iteration := 1\<rparr>, sconst 0)"
proof -
  have h: "3 \<le> length (cities triangleStart)"
    "iteration triangleStart < totalIterations triangleStart"
    "\<forall>k \<in> set (currentPath triangleStart). k < length (cities triangleStart)"
    "floorTimes (fst (random (sconst 0))) (length (cities triangleStart) - 1)
       = floorTimes (fst (random (snd (random (sconst 0))))) (length (cities triangleStart) - 1)"
    by (simp_all add: triangleStart_def triangle_def random_sconst)
  from simulationStep_equal_positions[OF h, of tspParams]
  obtain d where d: "calculatePathDistance (cities triangleStart) (currentPath triangleStart) = Inr d"
    and s: "simulationStep triangleStart tspParams (sconst 0) =
               Inr (triangleStart\<lparr>distances := distances triangleStart @ [d],
                          temperature := temperature triangleStart * coolingRate tspParams,
                          iteration := iteration triangleStart + 1\<rparr>,
                    snd (random (snd (random (sconst 0)))))"
    by blast
  have "d = 12" using d triangle_cost by (simp add: triangleStart_def)
  then show ?thesis using s by (simp add: triangleStart_def tspParams_def random_sconst)
qed


section \<open>Properties of the bitstring engine\<close>

subsection \<open>When the engine returns\<close>

text \<open>
  Only the resampling loop of \<open>twoBitFlipNeighbor\<close> can run for ever. It ends as soon as
  a draw gives an index other than the first; with another neighbour strategy, or with
  fewer than two bits, a step and a whole run always return.
\<close>

lemma pickIndices_second:
  assumes "floorTimes (fst (random (sdrop m g))) k \<noteq> i0"
  shows "\<exists>i1 g1. pickIndices k [i0] g = Some ([i0, i1], g1) \<and> i1 \<noteq> i0"
  using assms
proof (induction m arbitrary: g)
  case 0
  then show ?case
    by (subst pickIndices.simps) (simp add: random_def Let_def pickIndices.simps)
next
  case (Suc m)
  show ?case
  proof (cases "floorTimes (fst (random g)) k = i0")
    case True
    have "pickIndices k [i0] g = pickIndices k [i0] (stl g)"
      using True by (subst pickIndices.simps) (simp add: random_def Let_def)
    then show ?thesis using Suc.IH[of "stl g"] Suc.prems by simp
  next
    case False
    then show ?thesis
      by (subst pickIndices.simps) (simp add: random_def Let_def pickIndices.simps)
  qed
qed

lemma pickIndices_returns:
  assumes "floorTimes (fst (random (sdrop (Suc m) g))) k \<noteq> floorTimes (fst (random g)) k"
  shows "\<exists>i0 i1 g1. pickIndices k [] g = Some ([i0, i1], g1) \<and> i1 \<noteq> i0"
proof -
  have "pickIndices k [] g = pickIndices k [floorTimes (fst (random g)) k] (stl g)"
    by (subst pickIndices.simps) (simp add: random_def Let_def)
  then show ?thesis
    using pickIndices_second[of m "stl g" k "floorTimes (fst (random g)) k"] assms by auto
qed

lemma generateNeighbor_returns:
  assumes "nt \<noteq> TwoBitFlip \<or> rr < 2"
  shows "\<exists>n g1. generateNeighbor state rr nt g = Some (n, g1)"
proof (cases nt)
  case SingleBitFlip
  then show ?thesis
    by (cases "singleBitFlipNeighbor state rr g") (simp add: generateNeighbor_def)
next
  case TwoBitFlip
  then show ?thesis using assms by (simp add: generateNeighbor_def twoBitFlipNeighbor_def)
next
  case RandomWalk
  then show ?thesis
    by (cases "randomWalkNeighbor state rr g") (simp add: generateNeighbor_def)
qed

lemma loopBody_returns:
  assumes "neighborType params \<noteq> TwoBitFlip \<or> r params < 2"
  shows "\<exists>v1 g1. loopBody params iter v g = Some (v1, g1)"
proof -
  obtain n h where "generateNeighbor (currentState_v v) (r params) (neighborType params) g = Some (n, h)"
    using generateNeighbor_returns[OF assms] by blast
  then show ?thesis by (simp add: loopBody_def Let_def split_beta)
qed

lemma toyLoop_returns:
  assumes "neighborType params \<noteq> TwoBitFlip \<or> r params < 2"
  shows "\<exists>v1 g1. toyLoop params iter v g = Some (v1, g1)"
  using assms
proof (induction params iter v g rule: toyLoop.induct)
  case (1 params iter v g)
  show ?case
  proof (cases "iter \<le> maxIterations params")
    case False
    then show ?thesis by (subst toyLoop.simps) simp
  next
    case True
    obtain v2 g2 where b: "loopBody params iter v g = Some (v2, g2)"
      using loopBody_returns[OF "1.prems"] by blast
    show ?thesis
    proof (cases "maxIterations params \<le> iter")
      case fin: True
      then show ?thesis using True b by (subst toyLoop.simps) simp
    next
      case more: False
      then show ?thesis
        using True b "1.IH"[OF True b refl more "1.prems"]
        by (subst toyLoop.simps) simp
    qed
  qed
qed

lemma runToySimulation_returns:
  assumes "neighborType params \<noteq> TwoBitFlip \<or> r params < 2"
  shows "\<exists>state g1. runToySimulation params g = Some (state, g1)"
proof (cases "r params \<le> 0")
  case True
  then show ?thesis by (simp add: runToySimulation_def)
next
  case False
  obtain v g2 where
    "toyLoop params 1 (toyLocals0 params (floorTimes (fst (random g)) (2 ^ nat (r params))))
       (snd (random g)) = Some (v, g2)"
    using toyLoop_returns[OF assms] by blast
  then show ?thesis using False by (simp add: runToySimulation_def Let_def split_beta)
qed

lemma runSingleIteration_returns:
  assumes "neighborType params \<noteq> TwoBitFlip \<or> r params < 2"
  shows "\<exists>state1 g1. runSingleIteration state params g = Some (state1, g1)"
proof -
  obtain n h where "generateNeighbor (currentState state) (r params) (neighborType params) g = Some (n, h)"
    using generateNeighbor_returns[OF assms] by blast
  then show ?thesis by (simp add: runSingleIteration_def Let_def split_beta)
qed

subsection \<open>Best values\<close>

lemma jsLessEq_refl [simp]: "jsLessEq a a"
  by (simp add: jsLessEq_def)

lemma jsLessEq_Num [simp]: "jsLessEq (Num a) (Num b) = (a \<le> b)"
  by (auto simp: jsLessEq_def)

lemma jsLessEq_trans: "jsLessEq a b \<Longrightarrow> jsLessEq b c \<Longrightarrow> jsLessEq a c"
  by (cases a; cases b; cases c) (auto simp: jsLessEq_def)

lemma jsLess_imp_LessEq: "jsLess a b \<Longrightarrow> jsLessEq a b"
  by (simp add: jsLessEq_def)

lemma loopBody_result:
  assumes "loopBody params iter v g = Some (v1, g1)"
  shows "bestValue_v v \<le> bestValue_v v1 \<and>
         (\<exists>e. history_v v1 = history_v v @ [e] \<and> bestValue_d e = Num (bestValue_v v1) \<and>
              iteration_d e = iter)"
  using assms
  by (auto simp: loopBody_def Let_def split_beta split: option.splits)

lemma loopBody_bestInv:
  assumes "loopBody params iter v g = Some (v1, g1)" "bestInv v"
  shows "bestInv v1"
proof -
  from loopBody_result[OF assms(1)] obtain e where
    le: "bestValue_v v \<le> bestValue_v v1" and h: "history_v v1 = history_v v @ [e]"
    and e: "bestValue_d e = Num (bestValue_v v1)" by blast
  have old: "\<forall>a \<in> set (history_v v). jsLessEq (bestValue_d a) (Num (bestValue_v v1))"
  proof
    fix a assume "a \<in> set (history_v v)"
    then have "jsLessEq (bestValue_d a) (Num (bestValue_v v))" using assms(2) by (simp add: bestInv_def)
    moreover have "jsLessEq (Num (bestValue_v v)) (Num (bestValue_v v1))" using le by simp
    ultimately show "jsLessEq (bestValue_d a) (Num (bestValue_v v1))" by (rule jsLessEq_trans)
  qed
  show ?thesis
    using assms(2) old e unfolding bestInv_def h
    by (auto simp: sorted_wrt_append)
qed

lemma toyLoop_bestInv:
  "toyLoop params iter v g = Some (v1, g1) \<Longrightarrow> bestInv v \<Longrightarrow> bestInv v1"
proof (induction params iter v g rule: toyLoop.induct)
  case (1 params iter v g)
  show ?case
  proof (cases "iter \<le> maxIterations params")
    case False
    then show ?thesis using "1.prems" by (subst (asm) toyLoop.simps) simp
  next
    case True
    show ?thesis
    proof (cases "loopBody params iter v g")
      case None
      then show ?thesis using "1.prems" True by (subst (asm) toyLoop.simps) simp
    next
      case (Some a)
      obtain v2 g2 where a: "a = (v2, g2)" by (cases a)
      have inv2: "bestInv v2" using loopBody_bestInv Some a "1.prems"(2) by blast
      show ?thesis
      proof (cases "iter \<ge> maxIterations params")
        case fin: True
        then have "v1 = v2" using "1.prems"(1) True Some a by (subst (asm) toyLoop.simps) simp
        then show ?thesis using inv2 by simp
      next
        case more: False
        then have "toyLoop params (iter + 1) v2 g2 = Some (v1, g1)"
          using "1.prems"(1) True Some a by (subst (asm) toyLoop.simps) simp
        then show ?thesis using "1.IH"[OF True Some a[symmetric] more] inv2 by simp
      qed
    qed
  qed
qed

lemma runToySimulation_sorted:
  assumes "runToySimulation params g = Some (state, g1)"
  shows "sorted_wrt jsLessEq (map bestValue_d (history state))"
proof (cases "r params \<le> 0")
  case True
  then show ?thesis using assms by (auto simp: runToySimulation_def getInitialToyState_def)
next
  case False
  let ?s0 = "floorTimes (fst (random g)) (2 ^ nat (r params))"
  from assms False obtain v where
    l: "toyLoop params 1 (toyLocals0 params ?s0) (snd (random g)) = Some (v, g1)"
    and st: "state = toyResult params (maxIterations params) v"
    by (auto simp: runToySimulation_def Let_def split_beta split: option.splits)
  have "bestInv (toyLocals0 params ?s0)" by (simp add: bestInv_def toyLocals0_def Let_def)
  then have "bestInv v" using toyLoop_bestInv[OF l] by simp
  then show ?thesis by (simp add: st toyResult_def bestInv_def)
qed

lemma runSingleIteration_best:
  assumes "runSingleIteration state params g = Some (state1, g1)"
  shows "jsLessEq (bestValue state) (bestValue state1)"
  using assms
  by (auto simp: runSingleIteration_def Let_def split_beta jsLess_imp_LessEq
           split: if_splits option.splits)

subsection \<open>The worked example\<close>

lemma toy_poly:
  "evaluatePolynomial 0 [1, -2, 3] = 1" "evaluatePolynomial 1 [1, -2, 3] = 2"
  "evaluatePolynomial 2 [1, -2, 3] = 9" "evaluatePolynomial 3 [1, -2, 3] = 22"
  by (simp_all add: evaluatePolynomial_def upt_rec)

lemma toy_space: "buildSearchSpace toyParams = toySpace"
proof -
  have "[0..<2 ^ nat (r toyParams)] = [0, 1, 2, 3]"
    by (simp add: toyParams_def upt_rec)
  then show ?thesis
    using toy_poly by (simp add: buildSearchSpace_def toySpace_def toyParams_def)
qed

lemma toy_bits: "intToBinaryArray 0 2 = [0, 0]" "intToBinaryArray 2 2 = [1, 0]"
  by (simp_all add: intToBinaryArray_def toBinary.simps Let_def)

lemma toy_neighbor: "generateNeighbor 0 2 SingleBitFlip (sconst 0) = Some (2, sconst 0)"
  by (simp add: generateNeighbor_def singleBitFlipNeighbor_def toy_bits random_sconst
      floorTimes_def binaryArrayToInt_def)

lemma toy_init: "initializeToySimulation toyParams (sconst 0) = (toyStart, sconst 0)"
  using toy_space
  by (simp add: initializeToySimulation_def toyParams_def toyStart_def toyEntry0_def
      random_sconst floorTimes_def toy_poly toy_bits calculateTemperature_def)

lemma toy_step: "runSingleIteration toyStart toyParams (sconst 0) = Some (toyAfter1, sconst 0)"
  by (simp add: runSingleIteration_def toyParams_def toyStart_def toyAfter1_def toyEntry1_def
      toy_neighbor toy_poly toy_bits random_sconst calculateTemperature_def
      calculateAcceptanceProbability_def Let_def)

lemma toy_run: "runToySimulation toyParams (sconst 0) = Some (toyAfter1, sconst 0)"
proof -
  have b: "loopBody toyParams 1 (toyLocals0 toyParams 0) (sconst 0)
             = Some (\<lparr>currentState_v = 2, currentValue_v = 9, bestState_v = 2, bestValue_v = 9,
                      acceptedWorse_v = 0, history_v = [toyEntry0, toyEntry1]\<rparr>, sconst 0)"
    by (simp add: loopBody_def toyLocals0_def toyParams_def toyEntry0_def toyEntry1_def
        toy_neighbor toy_poly toy_bits random_sconst calculateTemperature_def
        calculateAcceptanceProbability_def Let_def)
  have m: "maxIterations toyParams = 1" "0 < r toyParams" by (simp_all add: toyParams_def)
  have l: "toyLoop toyParams 1 (toyLocals0 toyParams 0) (sconst 0)
             = Some (\<lparr>currentState_v = 2, currentValue_v = 9, bestState_v = 2, bestValue_v = 9,
                      acceptedWorse_v = 0, history_v = [toyEntry0, toyEntry1]\<rparr>, sconst 0)"
    using b m by (subst toyLoop.simps) simp
  have s0: "floorTimes (frac 0) (2 ^ nat (r toyParams)) = 0" by (simp add: floorTimes_def)
  show ?thesis
    using m toy_space l s0
    by (simp add: runToySimulation_def random_sconst toyResult_def toyAfter1_def)
qed

subsection \<open>Stepping against the full run\<close>

text \<open>
  For \<open>r \<ge> 1\<close> the two ways of running agree: \<open>k \<le> maxIterations\<close> calls of
  \<open>runSingleIteration\<close> on the state of \<open>initializeToySimulation\<close> consume the draws
  \<open>runToySimulation\<close> consumes in its first \<open>k\<close> iterations and reach the same state,
  save for \<open>isComplete\<close>, which the full run always sets; and a step does not return
  exactly when the run does not.
\<close>

lemma step_is_body:
  assumes "iter < maxIterations params"
  shows "runSingleIteration (stateOf params iter False v) params g =
           map_option (\<lambda>(v1, g1). (stateOf params (iter + 1) (maxIterations params \<le> iter + 1) v1, g1))
             (loopBody params (iter + 1) v g)"
  using assms
  by (simp add: runSingleIteration_def loopBody_def stateOf_def Let_def split_beta
           split: option.splits)

lemma toyLoopTo_past: "k < iter \<Longrightarrow> toyLoopTo params k iter v g = Some (v, g)"
  by (subst toyLoopTo.simps) simp

lemma toyLoopTo_unfold:
  "iter \<le> k \<Longrightarrow> toyLoopTo params k iter v g =
     (case loopBody params iter v g of None \<Rightarrow> None
      | Some (v1, g1) \<Rightarrow> toyLoopTo params k (iter + 1) v1 g1)"
  by (subst toyLoopTo.simps) simp

lemma steps_are_loop:
  assumes "iter + k \<le> maxIterations params" and "c \<longrightarrow> k = 0"
  shows "singleIterations k (stateOf params iter c v) params g =
           map_option
             (\<lambda>(v1, g1). (stateOf params (iter + k)
                              (if k = 0 then c else maxIterations params \<le> iter + k) v1, g1))
             (toyLoopTo params (iter + k) (iter + 1) v g)"
  using assms
proof (induction k arbitrary: iter c v g)
  case 0
  then show ?case by (simp add: toyLoopTo_past)
next
  case (Suc k)
  then have c: "\<not> c" and lt: "iter < maxIterations params" by simp_all
  show ?case
  proof (cases "loopBody params (iter + 1) v g")
    case None
    then show ?thesis
      using c lt by (simp add: step_is_body toyLoopTo_unfold)
  next
    case (Some a)
    obtain v1 g1 where a: "a = (v1, g1)" by (cases a)
    let ?c1 = "maxIterations params \<le> iter + 1"
    have s: "runSingleIteration (stateOf params iter c v) params g
               = Some (stateOf params (iter + 1) ?c1 v1, g1)"
      using c lt Some a by (simp add: step_is_body)
    have p1: "(iter + 1) + k \<le> maxIterations params" using Suc.prems(1) by simp
    have p2: "?c1 \<longrightarrow> k = 0" using Suc.prems(1) by auto
    have ih: "singleIterations k (stateOf params (iter + 1) ?c1 v1) params g1
                = map_option
                    (\<lambda>(v2, g2). (stateOf params (iter + 1 + k)
                        (if k = 0 then ?c1 else maxIterations params \<le> iter + 1 + k) v2, g2))
                    (toyLoopTo params (iter + 1 + k) (iter + 1 + 1) v1 g1)"
      by (rule Suc.IH[OF p1 p2])
    have fl: "(if k = 0 then ?c1 else maxIterations params \<le> iter + 1 + k)
                = (maxIterations params \<le> iter + Suc k)"
      by simp
    have lp: "toyLoopTo params (iter + Suc k) (iter + 1) v g
                = toyLoopTo params (iter + 1 + k) (iter + 1 + 1) v1 g1"
      using Some a by (simp add: toyLoopTo_unfold)
    show ?thesis
      using s ih lp fl by simp
  qed
qed

lemma loopBody_length:
  "loopBody params iter v g = Some (v1, g1) \<Longrightarrow> length (history_v v1) = length (history_v v) + 1"
  using loopBody_result[of params iter v g v1 g1] by auto

lemma toyLoopTo_length:
  "toyLoopTo params k iter v g = Some (v1, g1) \<Longrightarrow>
     length (history_v v1) = length (history_v v) + (k + 1 - iter)"
proof (induction params k iter v g rule: toyLoopTo.induct)
  case (1 params k iter v g)
  show ?case
  proof (cases "iter \<le> k")
    case False
    then show ?thesis using "1.prems" by (simp add: toyLoopTo_past)
  next
    case True
    then obtain v2 g2 where b: "loopBody params iter v g = Some (v2, g2)"
      and l: "toyLoopTo params k (iter + 1) v2 g2 = Some (v1, g1)"
      using "1.prems" by (auto simp: toyLoopTo_unfold split: option.splits)
    from "1.IH"[OF True b refl l] loopBody_length[OF b] True show ?thesis by simp
  qed
qed

lemma initializeToySimulation_stateOf:
  assumes "0 < r params"
  shows "initializeToySimulation params g =
           (stateOf params 0 False
              (toyLocals0 params (floorTimes (fst (random g)) (2 ^ nat (r params)))),
            snd (random g))"
  using assms
  by (simp add: initializeToySimulation_def stateOf_def toyLocals0_def Let_def split_beta)

lemma stepwise_matches_truncated:
  assumes "0 < r params" and "k \<le> maxIterations params"
  shows "map_option (\<lambda>(s, h). (s\<lparr>isComplete := True\<rparr>, h))
           (case initializeToySimulation params g of (s0, g0) \<Rightarrow> singleIterations k s0 params g0)
         = runTruncated params k g"
proof -
  let ?v0 = "toyLocals0 params (floorTimes (fst (random g)) (2 ^ nat (r params)))"
  let ?g0 = "snd (random g)"
  have steps: "singleIterations k (stateOf params 0 False ?v0) params ?g0 =
           map_option
             (\<lambda>(v1, g1). (stateOf params k
                              (if k = 0 then False else maxIterations params \<le> k) v1, g1))
             (toyLoopTo params k 1 ?v0 ?g0)"
    using steps_are_loop[of 0 k params False ?v0 ?g0] assms(2) by simp
  show ?thesis
  proof (cases "toyLoopTo params k 1 ?v0 ?g0")
    case None
    then show ?thesis
      using assms(1) steps
      by (simp add: initializeToySimulation_stateOf runTruncated_def Let_def split_beta)
  next
    case (Some a)
    obtain v1 g1 where a: "a = (v1, g1)" by (cases a)
    have "length (history_v v1) = length (history_v ?v0) + (k + 1 - 1)"
      using toyLoopTo_length[of params k 1 ?v0 ?g0 v1 g1] Some a by simp
    then have len: "length (history_v v1) = k + 1" by (simp add: toyLocals0_def Let_def)
    show ?thesis
      using assms(1) steps Some a len
      by (simp add: initializeToySimulation_stateOf runTruncated_def Let_def split_beta
          stateOf_def toyResult_def)
  qed
qed

lemma toyLoop_is_toyLoopTo:
  "toyLoop params iter v g = toyLoopTo params (maxIterations params) iter v g"
proof (induction params iter v g rule: toyLoop.induct)
  case (1 params iter v g)
  show ?case
  proof (cases "iter \<le> maxIterations params")
    case False
    then show ?thesis by (subst toyLoop.simps) (simp add: toyLoopTo_past)
  next
    case True
    show ?thesis
    proof (cases "loopBody params iter v g")
      case None
      then show ?thesis using True by (subst toyLoop.simps) (simp add: toyLoopTo_unfold)
    next
      case (Some a)
      obtain v1 g1 where a: "a = (v1, g1)" by (cases a)
      show ?thesis
      proof (cases "maxIterations params \<le> iter")
        case fin: True
        then show ?thesis
          using True Some a by (subst toyLoop.simps) (simp add: toyLoopTo_unfold toyLoopTo_past)
      next
        case more: False
        then show ?thesis
          using True Some a "1.IH"[OF True Some a[symmetric] more]
          by (subst toyLoop.simps) (simp add: toyLoopTo_unfold)
      qed
    qed
  qed
qed

lemma runTruncated_full: "runTruncated params (maxIterations params) g = runToySimulation params g"
  by (simp add: runTruncated_def runToySimulation_def toyLoop_is_toyLoopTo)

lemma toyLoopTo_iterations:
  "toyLoopTo params k iter v g = Some (v1, g1) \<Longrightarrow>
   map iteration_d (history_v v) = [0..<iter] \<Longrightarrow>
   map iteration_d (history_v v1) = [0..<max iter (k + 1)]"
proof (induction params k iter v g rule: toyLoopTo.induct)
  case (1 params k iter v g)
  show ?case
  proof (cases "iter \<le> k")
    case False
    then have "v1 = v" using "1.prems"(1) by (simp add: toyLoopTo_past)
    moreover have "max iter (k + 1) = iter" using False by simp
    ultimately show ?thesis using "1.prems"(2) by simp
  next
    case True
    then obtain v2 g2 where b: "loopBody params iter v g = Some (v2, g2)"
      and l: "toyLoopTo params k (iter + 1) v2 g2 = Some (v1, g1)"
      using "1.prems"(1) by (auto simp: toyLoopTo_unfold split: option.splits)
    from loopBody_result[OF b] obtain e where
      "history_v v2 = history_v v @ [e]" "iteration_d e = iter" by blast
    then have "map iteration_d (history_v v2) = [0..<iter + 1]"
      using "1.prems"(2) by simp
    from "1.IH"[OF True b refl l this] True show ?thesis by (simp add: max_def)
  qed
qed

lemma runToySimulation_iterations:
  assumes "runToySimulation params g = Some (state, g1)"
  shows "map iteration_d (history state) = [0..<length (history state)]"
proof (cases "r params \<le> 0")
  case True
  then show ?thesis using assms by (auto simp: runToySimulation_def getInitialToyState_def)
next
  case False
  let ?s0 = "floorTimes (fst (random g)) (2 ^ nat (r params))"
  from assms False obtain v where
    l: "toyLoopTo params (maxIterations params) 1 (toyLocals0 params ?s0) (snd (random g)) = Some (v, g1)"
    and st: "state = toyResult params (maxIterations params) v"
    by (auto simp: runToySimulation_def toyLoop_is_toyLoopTo Let_def split_beta split: option.splits)
  have "map iteration_d (history_v (toyLocals0 params ?s0)) = [0..<1]"
    by (simp add: toyLocals0_def Let_def)
  from toyLoopTo_iterations[OF l this]
  have m: "map iteration_d (history_v v) = [0..<maxIterations params + 1]" by (simp add: max_def)
  then have "length (history_v v) = maxIterations params + 1"
    by (metis length_map length_upt diff_zero)
  with m show ?thesis by (simp add: st toyResult_def)
qed

subsection \<open>The claims\<close>

text \<open>
  Claim C2, at \<open>r = 0\<close>: \<open>initializeToySimulation\<close> and \<open>runToySimulation\<close> both
  return the blank state of \<open>getInitialToyState\<close>, with an empty history, but
  \<open>runSingleIteration\<close> has no guard on \<open>r\<close> and one call of it on that state appends
  a record and moves \<open>currentIteration\<close> to 1. The stepped state is not the state of the
  run truncated at iteration 1.
\<close>

theorem zero_bits_step_differs:
  "initializeToySimulation degenerateParams (sconst 0) = (getInitialToyState, sconst 0) \<and>
   singleIterations 1 getInitialToyState degenerateParams (sconst 0)
     = Some (degenerateAfter1, sconst 0) \<and>
   runToySimulation degenerateParams (sconst 0) = Some (getInitialToyState, sconst 0) \<and>
   runTruncated degenerateParams 1 (sconst 0) = Some (getInitialToyState, sconst 0) \<and>
   history getInitialToyState = [] \<and> length (history degenerateAfter1) = 1 \<and>
   currentIteration getInitialToyState = 0 \<and> currentIteration degenerateAfter1 = 1 \<and>
   \<not> sameRun degenerateAfter1 getInitialToyState"
proof -
  have i: "initializeToySimulation degenerateParams (sconst 0) = (getInitialToyState, sconst 0)"
    by (simp add: initializeToySimulation_def degenerateParams_def)
  have n: "generateNeighbor 0 0 SingleBitFlip (sconst 0) = Some (0, sconst 0)"
    by (simp add: generateNeighbor_def singleBitFlipNeighbor_def)
  have s: "runSingleIteration getInitialToyState degenerateParams (sconst 0)
             = Some (degenerateAfter1, sconst 0)"
    using n toy_poly(1)
    by (simp add: runSingleIteration_def degenerateParams_def toyParams_def
        getInitialToyState_def degenerateAfter1_def random_sconst calculateTemperature_def
        calculateAcceptanceProbability_def intToBinaryArray_def Let_def)
  have rn: "runToySimulation degenerateParams (sconst 0) = Some (getInitialToyState, sconst 0)"
    by (simp add: runToySimulation_def degenerateParams_def)
  have rt: "runTruncated degenerateParams 1 (sconst 0) = Some (getInitialToyState, sconst 0)"
    by (simp add: runTruncated_def degenerateParams_def)
  show ?thesis
    using i s rn rt
    by (simp add: getInitialToyState_def degenerateAfter1_def sameRun_def)
qed

text \<open>
  Claim C6. The best value is monotone. A step of the travelling salesman engine from
  a state reachable from \<open>initializeSimulation\<close> with at least three cities does not
  raise \<open>bestDistance\<close>; a call of \<open>runSingleIteration\<close> does not lower \<open>bestValue\<close>; and
  the history \<open>runToySimulation\<close> returns lists the iterations \<open>0, 1, ...\<close> in order with
  \<open>bestValue\<close> entries that never decrease.
\<close>

theorem best_value_monotone:
  "(reachable cs params state \<and> simulationStep state params g = Inr (state1, g1)
      \<longrightarrow> bestDistance state1 \<le> bestDistance state) \<and>
   (runSingleIteration tstate tparams h = Some (tstate1, h1)
      \<longrightarrow> jsLessEq (bestValue tstate) (bestValue tstate1)) \<and>
   (runToySimulation tparams h = Some (tstate2, h2)
      \<longrightarrow> sorted_wrt jsLessEq (map bestValue_d (history tstate2)) \<and>
          map iteration_d (history tstate2) = [0..<length (history tstate2)])"
proof (intro conjI impI)
  assume a: "reachable cs params state \<and> simulationStep state params g = Inr (state1, g1)"
  then have "cities state = cs \<and> 3 \<le> length cs \<and> wellFormed state"
    using reachable_invariant by blast
  then show "bestDistance state1 \<le> bestDistance state"
    using simulationStep_best[of state params g state1 g1] a by simp
next
  assume "runSingleIteration tstate tparams h = Some (tstate1, h1)"
  then show "jsLessEq (bestValue tstate) (bestValue tstate1)" by (rule runSingleIteration_best)
next
  assume "runToySimulation tparams h = Some (tstate2, h2)"
  then show "sorted_wrt jsLessEq (map bestValue_d (history tstate2))"
    by (rule runToySimulation_sorted)
next
  assume "runToySimulation tparams h = Some (tstate2, h2)"
  then show "map iteration_d (history tstate2) = [0..<length (history tstate2)]"
    by (rule runToySimulation_iterations)
qed

text \<open>The triangle and the two-bit run, every draw 0.\<close>

theorem best_value_monotone_witness:
  "reachable triangle tspParams triangleStart \<and>
   simulationStep triangleStart tspParams (sconst 0) =
     Inr (triangleStart\<lparr>distances := [12, 12], temperature := 990, iteration := 1\<rparr>, sconst 0) \<and>
   bestDistance (triangleStart\<lparr>distances := [12, 12], temperature := 990, iteration := 1\<rparr>)
     \<le> bestDistance triangleStart \<and>
   runSingleIteration toyStart toyParams (sconst 0) = Some (toyAfter1, sconst 0) \<and>
   jsLessEq (bestValue toyStart) (bestValue toyAfter1) \<and>
   runToySimulation toyParams (sconst 0) = Some (toyAfter1, sconst 0) \<and>
   sorted_wrt jsLessEq (map bestValue_d (history toyAfter1)) \<and>
   map bestValue_d (history toyAfter1) = [Num 1, Num 9]"
proof -
  have r: "reachable triangle tspParams triangleStart"
    by (rule reachable.init[OF _ triangle_init]) (simp add: triangle_def)
  note m = best_value_monotone[of triangle tspParams triangleStart "sconst 0"
      "triangleStart\<lparr>distances := [12, 12], temperature := 990, iteration := 1\<rparr>" "sconst 0"
      toyStart toyParams "sconst 0" toyAfter1 "sconst 0" toyAfter1 "sconst 0"]
  have "map bestValue_d (history toyAfter1) = [Num 1, Num 9]"
    by (simp add: toyAfter1_def toyEntry0_def toyEntry1_def)
  then show ?thesis using m r triangle_step toy_step toy_run by simp
qed

text \<open>
  Claim C10. On a state that is complete, or whose \<open>currentIteration\<close> has reached
  \<open>maxIterations\<close>, \<open>runSingleIteration\<close> returns the state with \<open>isComplete\<close> set and
  every other field as it was, and draws nothing.
\<close>

theorem runSingleIteration_terminal:
  assumes "isComplete state \<or> maxIterations params \<le> currentIteration state"
  shows "runSingleIteration state params g = Some (state\<lparr>isComplete := True\<rparr>, g)"
  using assms by (auto simp: runSingleIteration_def)

text \<open>The state after the one iteration of the two-bit run.\<close>

theorem runSingleIteration_terminal_witness:
  "isComplete toyAfter1 \<and> maxIterations toyParams \<le> currentIteration toyAfter1 \<and>
   runSingleIteration toyAfter1 toyParams (sconst 0) = Some (toyAfter1, sconst 0)"
proof -
  have h: "isComplete toyAfter1 \<or> maxIterations toyParams \<le> currentIteration toyAfter1"
    by (simp add: toyAfter1_def)
  have e: "toyAfter1\<lparr>isComplete := True\<rparr> = toyAfter1" by (simp add: toyAfter1_def)
  show ?thesis
    using runSingleIteration_terminal[OF h, of "sconst 0"] e
    by (simp add: toyAfter1_def toyParams_def)
qed

end
